theory Spec2Isabelle
  imports Complex_Main "HOL-Library.Word"
begin

unbundle bit_operations_syntax

section \<open>The live audio pipeline of LiveAnchor\<close>

text \<open>
  The development embeds the audio helpers of \<^verbatim>\<open>services/geminiService\<close>
  (\<^verbatim>\<open>encode\<close>, \<^verbatim>\<open>decode\<close>, \<^verbatim>\<open>decodeAudioData\<close>) and the callbacks of
  \<^verbatim>\<open>components/LiveAnchor.tsx\<close> (\<^verbatim>\<open>stopAnchor\<close>, \<^verbatim>\<open>startAnchor\<close>,
  \<^verbatim>\<open>onopen\<close>, \<^verbatim>\<open>onaudioprocess\<close>, \<^verbatim>\<open>onmessage\<close>, \<^verbatim>\<open>onclose\<close>,
  \<^verbatim>\<open>onerror\<close>), together with the platform operations they call
  (\<^verbatim>\<open>btoa\<close>, \<^verbatim>\<open>atob\<close>, typed arrays, \<^verbatim>\<open>createBuffer\<close>), each following
  its standard.
\<close>

subsection \<open>Numbers\<close>

text \<open>
  A JavaScript number is an IEEE double; an element of a \<^verbatim>\<open>Float32Array\<close> is an IEEE
  single. The finite ones are modelled by the real they denote. Every operation the
  pipeline performs on a sample is exact on finite values: a single widened to a double
  and multiplied by \<open>32768 = 2^15\<close> only has its exponent moved, and \<open>k / 32768.0\<close>
  for a 16-bit \<open>k\<close> has at most 16 significant bits, so it is a double and a single.
  The constructor \<open>Finite\<close> admits every real, which is more than the doubles: a
  statement about all reals holds of all doubles.
\<close>

datatype number = Finite real | PosInf | NegInf | NaN

text \<open>\<^verbatim>\<open>x * 32768\<close>.\<close>

fun times_32768 :: "number \<Rightarrow> number" where
  "times_32768 (Finite x) = Finite (x * 32768)"
| "times_32768 PosInf = PosInf"
| "times_32768 NegInf = NegInf"
| "times_32768 NaN = NaN"

text \<open>The mathematical \<open>truncate\<close> of ECMAScript: rounding towards zero.\<close>

definition js_truncate :: "real \<Rightarrow> int" where
  "js_truncate x = (if 0 \<le> x then \<lfloor>x\<rfloor> else \<lceil>x\<rceil>)"

text \<open>
  \<open>ToInt16\<close> of ECMAScript, applied by the store \<^verbatim>\<open>int16[i] = v\<close>: a number that is
  not finite gives 0; a finite one is truncated and taken modulo \<open>2^16\<close>. The element is
  kept as a 16-bit word, read as a signed value by \<open>sint\<close>.
\<close>

fun ToInt16 :: "number \<Rightarrow> 16 word" where
  "ToInt16 (Finite x) = word_of_int (js_truncate x)"
| "ToInt16 PosInf = 0"
| "ToInt16 NegInf = 0"
| "ToInt16 NaN = 0"

subsection \<open>Typed arrays\<close>

datatype error = InvalidCharacterError | RangeError | NotSupportedError | TypeError

text \<open>
  A \<^verbatim>\<open>Uint8Array\<close> is a view of \<open>byteLength\<close> bytes, starting at \<open>byteOffset\<close>, of an
  underlying \<^verbatim>\<open>ArrayBuffer\<close>; the view lies within the buffer.
\<close>

record Uint8Array =
  buffer :: "8 word list"
  byteOffset :: nat
  byteLength :: nat

text \<open>\<^verbatim>\<open>new Uint8Array(buffer)\<close> and \<^verbatim>\<open>new Uint8Array(len)\<close> view a whole buffer.\<close>

definition new_Uint8Array :: "8 word list \<Rightarrow> Uint8Array" where
  "new_Uint8Array bs = \<lparr>buffer = bs, byteOffset = 0, byteLength = length bs\<rparr>"

text \<open>\<^verbatim>\<open>bytes[i]\<close>: \<open>None\<close> is \<^verbatim>\<open>undefined\<close>, read beyond the view.\<close>

definition at_u8 :: "Uint8Array \<Rightarrow> nat \<Rightarrow> 8 word option" where
  "at_u8 bytes i =
     (if i < byteLength bytes then Some (buffer bytes ! (byteOffset bytes + i)) else None)"

text \<open>
  The bytes of an \<^verbatim>\<open>Int16Array\<close>'s buffer, in the byte order of the platform, which
  is little-endian on every platform the browsers run on: low byte first.
\<close>

definition int16_bytes :: "16 word \<Rightarrow> 8 word list" where
  "int16_bytes w = [ucast w, ucast (drop_bit 8 w)]"

definition int16_buffer :: "16 word list \<Rightarrow> 8 word list" where
  "int16_buffer ws = concat (map int16_bytes ws)"

fun int16_elements :: "8 word list \<Rightarrow> 16 word list" where
  "int16_elements (lo # hi # bs) = (ucast lo OR push_bit 8 (ucast hi)) # int16_elements bs"
| "int16_elements bs = []"

text \<open>
  \<^verbatim>\<open>new Int16Array(buffer)\<close>: a \<^verbatim>\<open>RangeError\<close> when the byte length of the buffer
  is not a multiple of the element size.
\<close>

definition new_Int16Array :: "8 word list \<Rightarrow> error + 16 word list" where
  "new_Int16Array bs =
     (if length bs mod 2 \<noteq> 0 then Inl RangeError else Inr (int16_elements bs))"

subsection \<open>Base64: \<^verbatim>\<open>btoa\<close> and \<^verbatim>\<open>atob\<close>\<close>

text \<open>
  Strings are modelled by \<^typ>\<open>string\<close>, whose characters are the code units 0 to 255.
  This is all a binary string holds; in a base64 text a code unit above 255 is one more
  character outside the alphabet. \<^verbatim>\<open>btoa\<close> raises only on a code unit above 255, so
  in this model it is total.
\<close>

definition b64_digit :: "nat \<Rightarrow> char" where
  "b64_digit n = char_of (if n < 26 then n + 65 else if n < 52 then n + 71
                          else if n < 62 then n - 4 else if n = 62 then 43 else 47)"

definition b64_value :: "char \<Rightarrow> nat option" where
  "b64_value c = (let n = of_char c :: nat in
     if 65 \<le> n \<and> n \<le> 90 then Some (n - 65)
     else if 97 \<le> n \<and> n \<le> 122 then Some (n - 71)
     else if 48 \<le> n \<and> n \<le> 57 then Some (n + 4)
     else if n = 43 then Some 62
     else if n = 47 then Some 63
     else None)"

fun sextets :: "nat list \<Rightarrow> nat list" where
  "sextets (a # b # c # bs) =
     a div 4 # (a mod 4 * 16 + b div 16) # (b mod 16 * 4 + c div 64) # c mod 64 # sextets bs"
| "sextets [a, b] = [a div 4, a mod 4 * 16 + b div 16, b mod 16 * 4]"
| "sextets [a] = [a div 4, a mod 4 * 16]"
| "sextets [] = []"

definition btoa :: "string \<Rightarrow> string" where
  "btoa s = map b64_digit (sextets (map of_char s))
            @ replicate ((3 - length s mod 3) mod 3) (CHR ''='')"

fun octets :: "nat list \<Rightarrow> nat list" where
  "octets (p # q # r # s # ps) =
     (p * 4 + q div 16) # (q mod 16 * 16 + r div 4) # (r mod 4 * 64 + s) # octets ps"
| "octets [p, q, r] = [p * 4 + q div 16, q mod 16 * 16 + r div 4]"
| "octets [p, q] = [p * 4 + q div 16]"
| "octets ps = []"

definition ascii_whitespace :: "char \<Rightarrow> bool" where
  "ascii_whitespace c = (of_char c \<in> {9, 10, 12, 13, 32 :: nat})"

text \<open>Remove one or two trailing \<^verbatim>\<open>=\<close>.\<close>

definition strip_padding :: "string \<Rightarrow> string" where
  "strip_padding d =
     (if d \<noteq> [] \<and> last d = CHR ''='' then
        (if butlast d \<noteq> [] \<and> last (butlast d) = CHR ''='' then butlast (butlast d)
         else butlast d)
      else d)"

text \<open>
  \<^verbatim>\<open>atob\<close> is the forgiving-base64 decode of the WHATWG Infra standard: whitespace is
  removed, padding is removed when the length is a multiple of 4, a length of 1 modulo 4
  or a character outside the alphabet fails, and the bits left over after the last whole
  byte are dropped.
\<close>

definition atob :: "string \<Rightarrow> error + string" where
  "atob s =
     (let d = filter (\<lambda>c. \<not> ascii_whitespace c) s;
          d = (if length d mod 4 = 0 then strip_padding d else d)
      in if length d mod 4 = 1 then Inl InvalidCharacterError
         else if list_ex (\<lambda>c. b64_value c = None) d then Inl InvalidCharacterError
         else Inr (map char_of (octets (map (\<lambda>c. the (b64_value c)) d))))"

subsection \<open>\<^verbatim>\<open>encode\<close> and \<^verbatim>\<open>decode\<close>\<close>

text \<open>\<^verbatim>\<open>String.fromCharCode(bytes[i])\<close>; of \<^verbatim>\<open>undefined\<close> it is the code unit 0.\<close>

definition fromCharCode :: "8 word option \<Rightarrow> char" where
  "fromCharCode b = (case b of None \<Rightarrow> char_of (0 :: nat) | Some w \<Rightarrow> char_of (unat w))"

definition encode :: "Uint8Array \<Rightarrow> string" where
  "encode bytes =
     btoa (foldl (\<lambda>binary i. binary @ [fromCharCode (at_u8 bytes i)]) []
             [0 ..< byteLength bytes])"

definition decode :: "string \<Rightarrow> error + Uint8Array" where
  "decode base64 =
     (case atob base64 of
        Inl e \<Rightarrow> Inl e
      | Inr binaryString \<Rightarrow>
          (let len = length binaryString;
               bytes = foldl (\<lambda>bytes i. bytes[i := word_of_nat (of_char (binaryString ! i))])
                         (replicate len 0) [0 ..< len]
           in Inr (new_Uint8Array bytes)))"

subsection \<open>\<^verbatim>\<open>decodeAudioData\<close>\<close>

text \<open>
  The audio context is taken for the ranges its \<^verbatim>\<open>createBuffer\<close> accepts. The Web
  Audio standard obliges every implementation to accept 1 to 32 channels and sample
  rates from 8000 to 96000; an implementation may accept more.
\<close>

record AudioContext =
  maxChannels :: nat
  minSampleRate :: nat
  maxSampleRate :: nat

record AudioBuffer =
  sampleRate :: nat
  frameLength :: nat
  channelData :: "number list list"

text \<open>\<^verbatim>\<open>buffer.duration\<close>, in seconds.\<close>

definition duration :: "AudioBuffer \<Rightarrow> real" where
  "duration b = real (frameLength b) / real (sampleRate b)"

text \<open>
  The arithmetic of doubles, on the reals that doubles denote. \<open>float64 x\<close> is the double
  nearest to \<open>x\<close>, ties going to the even significand: 53 significant bits, the
  exponent not below \<open>-1022\<close> (below it the doubles are evenly spaced). An overflow to
  infinity, beyond \<open>2^1024\<close>, is left out. The sum and the quotient of two doubles are
  the exact results rounded once, and \<^verbatim>\<open>buffer.duration\<close> is the quotient of the length
  by the sample rate.
\<close>

definition round_ties_even :: "real \<Rightarrow> int" where
  "round_ties_even q =
     (let f = \<lfloor>q\<rfloor> in
      if q - of_int f < 1 / 2 then f
      else if 1 / 2 < q - of_int f then f + 1
      else if even f then f else f + 1)"

definition float64 :: "real \<Rightarrow> real" where
  "float64 x =
     (if x = 0 then 0
      else (let e = max \<lfloor>log 2 \<bar>x\<bar>\<rfloor> (- 1022) - 52
            in of_int (round_ties_even (x / 2 powr of_int e)) * 2 powr of_int e))"

definition add64 :: "real \<Rightarrow> real \<Rightarrow> real" where
  "add64 a b = float64 (a + b)"

definition duration64 :: "AudioBuffer \<Rightarrow> real" where
  "duration64 b = float64 (real (frameLength b) / real (sampleRate b))"

text \<open>
  \<^verbatim>\<open>dataInt16.length / numChannels\<close>, a number: a division by zero gives infinity, or
  \<open>NaN\<close> for \<open>0 / 0\<close>. The quotient of two array lengths is rounded to a double, which
  moves it across no integer (a length is below \<open>2^53\<close>): its truncation and the
  indices below it are those of the exact quotient, which the model keeps.
\<close>

definition js_divide :: "nat \<Rightarrow> nat \<Rightarrow> number" where
  "js_divide a b =
     (if b = 0 then (if a = 0 then NaN else PosInf) else Finite (real a / real b))"

text \<open>
  The conversion of a number to the \<^verbatim>\<open>unsigned long\<close> of Web IDL, which the
  \<open>length\<close> argument of \<^verbatim>\<open>createBuffer\<close> goes through: truncation, modulo \<open>2^32\<close>.
\<close>

fun unsigned_long :: "number \<Rightarrow> nat" where
  "unsigned_long (Finite x) = nat (js_truncate x mod 2 ^ 32)"
| "unsigned_long PosInf = 0"
| "unsigned_long NegInf = 0"
| "unsigned_long NaN = 0"

text \<open>
  \<^verbatim>\<open>ctx.createBuffer(numberOfChannels, length, sampleRate)\<close>: a \<^verbatim>\<open>TypeError\<close> on a
  null context, a \<^verbatim>\<open>NotSupportedError\<close> when an argument is zero or outside its
  range; otherwise a buffer of silence.
\<close>

definition createBuffer :: "AudioContext option \<Rightarrow> nat \<Rightarrow> number \<Rightarrow> nat \<Rightarrow> error + AudioBuffer" where
  "createBuffer ctx numberOfChannels len rate =
     (case ctx of
        None \<Rightarrow> Inl TypeError
      | Some c \<Rightarrow>
          (let n = unsigned_long len in
           if numberOfChannels = 0 \<or> max 32 (maxChannels c) < numberOfChannels
              \<or> n = 0
              \<or> rate = 0 \<or> rate < min 8000 (minSampleRate c) \<or> max 96000 (maxSampleRate c) < rate
           then Inl NotSupportedError
           else Inr \<lparr>sampleRate = rate, frameLength = n,
                     channelData = replicate numberOfChannels (replicate n (Finite 0))\<rparr>))"

text \<open>\<^verbatim>\<open>dataInt16[k]\<close>: \<open>None\<close> is \<^verbatim>\<open>undefined\<close>.\<close>

definition at_i16 :: "16 word list \<Rightarrow> nat \<Rightarrow> 16 word option" where
  "at_i16 ws k = (if k < length ws then Some (ws ! k) else None)"

text \<open>\<^verbatim>\<open>v / 32768.0\<close>; of \<^verbatim>\<open>undefined\<close> it is \<open>NaN\<close>.\<close>

definition over_32768 :: "16 word option \<Rightarrow> number" where
  "over_32768 v = (case v of None \<Rightarrow> NaN | Some w \<Rightarrow> Finite (real_of_int (sint w) / 32768))"

text \<open>\<^verbatim>\<open>channelData[i] = v\<close>: a store beyond the end of a typed array is ignored.\<close>

definition store_f32 :: "number list \<Rightarrow> nat \<Rightarrow> number \<Rightarrow> number list" where
  "store_f32 cd i v = (if i < length cd then cd[i := v] else cd)"

text \<open>
  The values \<open>i\<close> takes in \<^verbatim>\<open>for (let i = 0; i < frameCount; i++)\<close>. The loop does
  not end on an infinite \<open>frameCount\<close>, which is never reached: \<open>frameCount\<close> is infinite
  only for \<open>numChannels = 0\<close>, when \<^verbatim>\<open>createBuffer\<close> has raised and the enclosing loop
  over the channels has no round.
\<close>

fun loop_indices :: "number \<Rightarrow> nat list" where
  "loop_indices (Finite x) = [0 ..< nat \<lceil>x\<rceil>]"
| "loop_indices PosInf = []"
| "loop_indices NegInf = []"
| "loop_indices NaN = []"

definition fill_channel :: "16 word list \<Rightarrow> nat \<Rightarrow> number \<Rightarrow> nat \<Rightarrow> number list \<Rightarrow> number list" where
  "fill_channel dataInt16 numChannels frameCount channel cd =
     foldl (\<lambda>cd i. store_f32 cd i (over_32768 (at_i16 dataInt16 (i * numChannels + channel))))
       cd (loop_indices frameCount)"

definition decodeAudioData :: "Uint8Array \<Rightarrow> AudioContext option \<Rightarrow> nat \<Rightarrow> nat \<Rightarrow> error + AudioBuffer" where
  "decodeAudioData data ctx rate numChannels =
     (case new_Int16Array (buffer data) of
        Inl e \<Rightarrow> Inl e
      | Inr dataInt16 \<Rightarrow>
          (let frameCount = js_divide (length dataInt16) numChannels in
           case createBuffer ctx numChannels frameCount rate of
             Inl e \<Rightarrow> Inl e
           | Inr buf \<Rightarrow>
               Inr (foldl (\<lambda>b channel.
                      b\<lparr>channelData := (channelData b)
                          [channel := fill_channel dataInt16 numChannels frameCount channel
                                        (channelData b ! channel)]\<rparr>)
                    buf [0 ..< numChannels])))"

subsection \<open>The outbound encoder: \<^verbatim>\<open>onaudioprocess\<close>\<close>

text \<open>
  The \<open>data\<close> of the media that \<^verbatim>\<open>onaudioprocess\<close> sends for the samples \<open>input\<close> of
  channel 0: the loop fills a fresh \<^verbatim>\<open>Int16Array\<close>, whose buffer is encoded whole.
\<close>

definition onaudioprocess :: "number list \<Rightarrow> string" where
  "onaudioprocess input =
     (let int16 = foldl (\<lambda>int16 i. int16[i := ToInt16 (times_32768 (input ! i))])
                    (replicate (length input) 0) [0 ..< length input]
      in encode (new_Uint8Array (int16_buffer int16)))"

text \<open>
  What the inbound side makes of a payload: \<^verbatim>\<open>decodeAudioData(decode(base64), ctx, 24000, 1)\<close>,
  as \<^verbatim>\<open>onmessage\<close> calls it.
\<close>

definition decode_payload :: "AudioContext option \<Rightarrow> string \<Rightarrow> error + AudioBuffer" where
  "decode_payload ctx base64 =
     (case decode base64 of Inl e \<Rightarrow> Inl e | Inr bytes \<Rightarrow> decodeAudioData bytes ctx 24000 1)"

subsection \<open>The component and its callbacks\<close>

datatype readyState = Live | Ended

text \<open>A media stream is taken for the states of its tracks.\<close>

type_synonym MediaStream = "readyState list"

text \<open>A source node, once started: its buffer, the time given to \<^verbatim>\<open>start\<close>, and
  whether \<^verbatim>\<open>stop\<close> has been called on it.\<close>

record AudioBufferSourceNode =
  node_buffer :: AudioBuffer
  startedAt :: real
  stopped :: bool

text \<open>
  The state and refs of the component. The source nodes are objects: \<open>nodes\<close> holds
  every node created so far, a node being named by its index, and \<open>sources\<close> is the set
  \<^verbatim>\<open>sourcesRef.current\<close> of the nodes registered as playing.
\<close>

record LiveAnchor =
  isActive :: bool
  isConnecting :: bool
  audioContext :: "AudioContext option"
  nextStartTime :: real
  sources :: "nat set"
  nodes :: "AudioBufferSourceNode list"
  stream :: "MediaStream option"

definition mounted :: LiveAnchor where
  "mounted = \<lparr>isActive = False, isConnecting = False, audioContext = None,
              nextStartTime = 0, sources = {}, nodes = [], stream = None\<rparr>"

text \<open>\<^verbatim>\<open>sourcesRef.current.forEach(s => s.stop())\<close>. Every registered node has been
  started, so \<^verbatim>\<open>stop\<close> does not raise.\<close>

definition stop_sources :: "LiveAnchor \<Rightarrow> LiveAnchor" where
  "stop_sources s =
     s\<lparr>nodes := map (\<lambda>i. if i \<in> sources s then (nodes s ! i)\<lparr>stopped := True\<rparr> else nodes s ! i)
                   [0 ..< length (nodes s)]\<rparr>"

definition stopAnchor :: "LiveAnchor \<Rightarrow> LiveAnchor" where
  "stopAnchor s =
     (let s = s\<lparr>isActive := False\<rparr>;
          s = s\<lparr>stream := map_option (map (\<lambda>t. Ended)) (stream s)\<rparr>;
          s = stop_sources s
      in s\<lparr>sources := {}\<rparr>)"

text \<open>
  \<^verbatim>\<open>startAnchor\<close>, with what the environment answers: the context that
  \<^verbatim>\<open>new AudioContext\<close> would make, and the stream of \<^verbatim>\<open>getUserMedia\<close>, \<open>None\<close>
  when it rejects (the \<^verbatim>\<open>catch\<close> branch). With a stream, the connection is requested
  and its callbacks follow as events.
\<close>

definition startAnchor :: "AudioContext \<Rightarrow> MediaStream option \<Rightarrow> LiveAnchor \<Rightarrow> LiveAnchor" where
  "startAnchor fresh media s =
     (let s = s\<lparr>isConnecting := True\<rparr>;
          s = (if audioContext s = None then s\<lparr>audioContext := Some fresh\<rparr> else s)
      in case media of
           None \<Rightarrow> s\<lparr>isConnecting := False\<rparr>
         | Some m \<Rightarrow> s\<lparr>stream := Some m\<rparr>)"

definition onopen :: "LiveAnchor \<Rightarrow> LiveAnchor" where
  "onopen s = (let s = s\<lparr>isConnecting := False\<rparr> in s\<lparr>isActive := True\<rparr>)"

text \<open>The inbound message, as far as \<^verbatim>\<open>onmessage\<close> reads it; \<open>None\<close> is an absent field.\<close>

record Blob =
  data :: "string option"

record Part =
  inlineData :: "Blob option"

record Content =
  parts :: "Part list option"

record LiveServerContent =
  modelTurn :: "Content option"
  interrupted :: "bool option"

record LiveServerMessage =
  serverContent :: "LiveServerContent option"

text \<open>
  \<^verbatim>\<open>msg.serverContent?.modelTurn?.parts[0]?.inlineData?.data\<close>: the access
  \<^verbatim>\<open>.parts[0]\<close> is not optional, and raises on a model turn without parts.
\<close>

definition inline_data :: "LiveServerMessage \<Rightarrow> error + string option" where
  "inline_data msg =
     (case serverContent msg of
        None \<Rightarrow> Inr None
      | Some sc \<Rightarrow>
          (case modelTurn sc of
             None \<Rightarrow> Inr None
           | Some turn \<Rightarrow>
               (case parts turn of
                  None \<Rightarrow> Inl TypeError
                | Some ps \<Rightarrow>
                    (case ps of
                       [] \<Rightarrow> Inr None
                     | p # _ \<Rightarrow>
                         (case inlineData p of None \<Rightarrow> Inr None | Some blob \<Rightarrow> Inr (data blob))))))"

text \<open>\<^verbatim>\<open>msg.serverContent?.interrupted\<close>, as a condition.\<close>

definition is_interrupted :: "LiveServerMessage \<Rightarrow> bool" where
  "is_interrupted msg =
     (case serverContent msg of None \<Rightarrow> False | Some sc \<Rightarrow> interrupted sc = Some True)"

text \<open>
  Lines 58 to 65 of \<^verbatim>\<open>onmessage\<close>: a new source node for the buffer is started at the
  later of the cursor and the clock of the context, the cursor moves on by the duration
  of the buffer, and the node is registered. The cursor, the clock and the duration are
  doubles. \<^verbatim>\<open>Math.max\<close> returns one of its arguments, so it is exact; the addition
  \<^verbatim>\<open>+=\<close> rounds, and so does the division behind \<^verbatim>\<open>buffer.duration\<close>. The two enter
  as the parameters \<open>add\<close> and \<open>dur\<close>: the code runs \<open>schedule_with add64 duration64\<close>.
\<close>

definition schedule_with ::
  "(real \<Rightarrow> real \<Rightarrow> real) \<Rightarrow> (AudioBuffer \<Rightarrow> real) \<Rightarrow> AudioBuffer \<Rightarrow> real \<Rightarrow> LiveAnchor \<Rightarrow> LiveAnchor" where
  "schedule_with add dur buf currentTime s =
     (let source = length (nodes s);
          s = s\<lparr>nextStartTime := max (nextStartTime s) currentTime\<rparr>;
          s = s\<lparr>nodes := nodes s @ [\<lparr>node_buffer = buf, startedAt = nextStartTime s, stopped = False\<rparr>]\<rparr>;
          s = s\<lparr>nextStartTime := add (nextStartTime s) (dur buf)\<rparr>
      in s\<lparr>sources := insert source (sources s)\<rparr>)"

text \<open>
  The same lines with the sum and the quotient not rounded. The callbacks below are
  stated with it; what is proved of them rests on the maximum, on the reset to 0 and on
  the cursor being left away from 0, which rounding does not change.
\<close>

definition schedule :: "AudioBuffer \<Rightarrow> real \<Rightarrow> LiveAnchor \<Rightarrow> LiveAnchor" where
  "schedule buf currentTime s = schedule_with (+) duration buf currentTime s"

text \<open>\<^verbatim>\<open>source.onended\<close>.\<close>

definition onended :: "nat \<Rightarrow> LiveAnchor \<Rightarrow> LiveAnchor" where
  "onended source s = s\<lparr>sources := sources s - {source}\<rparr>"

text \<open>Lines 68 to 70: the branch taken on \<^verbatim>\<open>interrupted\<close>.\<close>

definition interrupt :: "LiveAnchor \<Rightarrow> LiveAnchor" where
  "interrupt s = (let s = stop_sources s; s = s\<lparr>sources := {}\<rparr> in s\<lparr>nextStartTime := 0\<rparr>)"

text \<open>
  \<^verbatim>\<open>onmessage\<close>, at the clock reading \<open>currentTime\<close> of the context. The test
  \<^verbatim>\<open>if (base64)\<close> fails on an absent and on an empty string. The handler is
  asynchronous: an exception rejects its promise, and what follows the raising
  expression does not run. Nothing is written to a ref before the buffer is decoded, so
  an \<open>Inl\<close> leaves the component as it was, and the handlers of successive messages
  act as if each ran whole.
\<close>

definition onmessage :: "LiveServerMessage \<Rightarrow> real \<Rightarrow> LiveAnchor \<Rightarrow> error + LiveAnchor" where
  "onmessage msg currentTime s =
     (case inline_data msg of
        Inl e \<Rightarrow> Inl e
      | Inr base64 \<Rightarrow>
          (case (case base64 of
                   None \<Rightarrow> Inr s
                 | Some b \<Rightarrow>
                     if b = [] then Inr s
                     else (case decode_payload (audioContext s) b of
                             Inl e \<Rightarrow> Inl e
                           | Inr buf \<Rightarrow> Inr (schedule buf currentTime s))) of
             Inl e \<Rightarrow> Inl e
           | Inr s \<Rightarrow> Inr (if is_interrupted msg then interrupt s else s)))"

text \<open>The session state the component shows: the button renders the spinner while
  connecting, else the stop square while active, else the start icon.\<close>

datatype session_state = IDLE | CONNECTING | ACTIVE

definition session_state :: "LiveAnchor \<Rightarrow> session_state" where
  "session_state s = (if isConnecting s then CONNECTING else if isActive s then ACTIVE else IDLE)"

text \<open>
  What can happen to the component. The button is disabled while connecting, and calls
  \<^verbatim>\<open>stopAnchor\<close> when active, \<^verbatim>\<open>startAnchor\<close> otherwise; \<^verbatim>\<open>onclose\<close> and
  \<^verbatim>\<open>onerror\<close> call \<^verbatim>\<open>stopAnchor\<close>.
\<close>

datatype event =
    Click AudioContext "MediaStream option"
  | OnOpen
  | OnMessage LiveServerMessage real
  | OnEnded nat
  | OnClose
  | OnError

fun step :: "LiveAnchor \<Rightarrow> event \<Rightarrow> LiveAnchor" where
  "step s (Click fresh media) =
     (if isConnecting s then s else if isActive s then stopAnchor s else startAnchor fresh media s)"
| "step s OnOpen = onopen s"
| "step s (OnMessage msg currentTime) =
     (case onmessage msg currentTime s of Inl e \<Rightarrow> s | Inr s' \<Rightarrow> s')"
| "step s (OnEnded source) = onended source s"
| "step s OnClose = stopAnchor s"
| "step s OnError = stopAnchor s"

definition run :: "event list \<Rightarrow> LiveAnchor" where
  "run evs = foldl step mounted evs"

text \<open>Buffers arriving one after the other, each with the clock reading at its arrival.\<close>

fun schedule_all ::
  "(real \<Rightarrow> real \<Rightarrow> real) \<Rightarrow> (AudioBuffer \<Rightarrow> real) \<Rightarrow> (AudioBuffer \<times> real) list \<Rightarrow> LiveAnchor \<Rightarrow> LiveAnchor" where
  "schedule_all add dur [] s = s"
| "schedule_all add dur ((buf, currentTime) # rest) s =
     schedule_all add dur rest (schedule_with add dur buf currentTime s)"

text \<open>The clock never overtakes the cursor: each buffer arrives no later than the end
  of the one before it, the cursor being at \<open>c\<close> before the first.\<close>

fun ahead_of_clock ::
  "(real \<Rightarrow> real \<Rightarrow> real) \<Rightarrow> (AudioBuffer \<Rightarrow> real) \<Rightarrow> real \<Rightarrow> (AudioBuffer \<times> real) list \<Rightarrow> bool" where
  "ahead_of_clock add dur c [] = True"
| "ahead_of_clock add dur c ((buf, currentTime) # rest) =
     (currentTime \<le> c \<and> ahead_of_clock add dur (add c (dur buf)) rest)"

text \<open>The offset and the durations added to it one by one, from the left: the offset,
  the offset plus the first, that sum plus the second, and so on.\<close>

fun running_sums :: "(real \<Rightarrow> real \<Rightarrow> real) \<Rightarrow> real \<Rightarrow> real list \<Rightarrow> real list" where
  "running_sums add c [] = []"
| "running_sums add c (d # ds) = c # running_sums add (add c d) ds"

subsection \<open>Closed forms and sample data\<close>

text \<open>
  The buffer that the loops of \<^verbatim>\<open>decodeAudioData\<close> leave for the 16-bit elements
  \<open>ws\<close>, in closed form: \<open>length ws div nc\<close> frames, frame \<open>i\<close> of channel \<open>c\<close> being
  element \<open>i * nc + c\<close> over 32768.
\<close>

definition decoded :: "16 word list \<Rightarrow> nat \<Rightarrow> nat \<Rightarrow> AudioBuffer" where
  "decoded ws rate nc =
     \<lparr>sampleRate = rate, frameLength = length ws div nc,
      channelData = map (\<lambda>c. map (\<lambda>i. Finite (real_of_int (sint (ws ! (i * nc + c))) / 32768))
                                  [0 ..< length ws div nc]) [0 ..< nc]\<rparr>"

text \<open>A context with exactly the ranges every implementation accepts.\<close>

definition browser :: AudioContext where
  "browser = \<lparr>maxChannels = 32, minSampleRate = 8000, maxSampleRate = 96000\<rparr>"

text \<open>A message whose first part carries \<open>base64\<close>, with the \<open>interrupted\<close> field set.\<close>

definition audio_message :: "string \<Rightarrow> bool \<Rightarrow> LiveServerMessage" where
  "audio_message base64 flag =
     \<lparr>serverContent = Some
        \<lparr>modelTurn = Some \<lparr>parts = Some [\<lparr>inlineData = Some \<lparr>data = Some base64\<rparr>\<rparr>]\<rparr>,
         interrupted = Some flag\<rparr>\<rparr>"

text \<open>A mono buffer of \<open>n\<close> frames of silence at 24000 Hz.\<close>

definition silence :: "nat \<Rightarrow> AudioBuffer" where
  "silence n = \<lparr>sampleRate = 24000, frameLength = n, channelData = [replicate n (Finite 0)]\<rparr>"

text \<open>A session that is opened and receives one message, carrying one frame of audio
  (two zero bytes), at clock 0.\<close>

definition one_buffer_session :: "event list" where
  "one_buffer_session =
     [Click browser (Some [Live]), OnOpen, OnMessage (audio_message ''AAA='' False) 0]"

text \<open>An interrupted message whose audio is a single byte.\<close>

definition interrupted_bad_audio :: LiveServerMessage where
  "interrupted_bad_audio = audio_message ''AA=='' True"

section \<open>Typed arrays and base64\<close>

lemma int16_roundtrip: "ucast (ucast w :: 8 word) OR push_bit 8 (ucast (ucast (drop_bit 8 w) :: 8 word)) = (w :: 16 word)"
  by (rule bit_word_eqI) (auto simp: bit_simps)

lemma int16_elements_buffer: "int16_elements (int16_buffer ws) = ws"
  by (induction ws) (simp_all add: int16_buffer_def int16_bytes_def int16_roundtrip)

lemma length_int16_buffer: "length (int16_buffer ws) = 2 * length ws"
  by (induction ws) (simp_all add: int16_buffer_def int16_bytes_def)

lemma int16_bytes_little_endian:
  "map unat (int16_bytes w) = [unat w mod 256, unat w div 256]"
proof -
  have "unat w < 65536" using unsigned_less [of w, where 'a = nat] by simp
  then have "unat w div 256 < 256" by simp
  then show ?thesis
    by (simp add: int16_bytes_def unsigned_ucast_eq unat_drop_bit_eq drop_bit_eq_div unat_div_distrib take_bit_eq_mod)
qed

lemma b64_value_digit: "n < 64 \<Longrightarrow> b64_value (b64_digit n) = Some n"
  by (auto simp: b64_value_def b64_digit_def Let_def)

lemma b64_digit_not_space: "n < 64 \<Longrightarrow> \<not> ascii_whitespace (b64_digit n)"
  by (auto simp: ascii_whitespace_def b64_digit_def)

lemma b64_digit_not_pad: "n < 64 \<Longrightarrow> b64_digit n \<noteq> CHR ''=''"
proof
  assume "n < 64" and "b64_digit n = CHR ''=''"
  then have "(of_char (b64_digit n) :: nat) = of_char (CHR ''='')" by simp
  with \<open>n < 64\<close> show False by (auto simp: b64_digit_def split: if_splits)
qed

lemma octets_sextets: "\<forall>x\<in>set xs. x < 256 \<Longrightarrow> octets (sextets xs) = xs"
  by (induction xs rule: sextets.induct) auto

lemma sextets_lt: "\<forall>x\<in>set xs. x < 256 \<Longrightarrow> \<forall>y\<in>set (sextets xs). y < 64"
  by (induction xs rule: sextets.induct) auto

lemma length_sextets: "length (sextets xs) = (4 * length xs + 2) div 3"
  by (induction xs rule: sextets.induct) auto

lemma foldl_update_upt:
  "n \<le> length xs \<Longrightarrow> foldl (\<lambda>ys i. ys[i := g i]) xs [0 ..< n] = map g [0 ..< n] @ drop n xs"
proof (induction n)
  case 0
  then show ?case by simp
next
  case (Suc n)
  then have "foldl (\<lambda>ys i. ys[i := g i]) xs [0 ..< Suc n] = (map g [0 ..< n] @ drop n xs)[n := g n]"
    by simp
  also have "\<dots> = map g [0 ..< n] @ (drop n xs)[0 := g n]"
    by (simp add: list_update_append)
  also have "(drop n xs)[0 := g n] = g n # drop (Suc n) xs"
    using Suc.prems by (simp flip: Cons_nth_drop_Suc)
  finally show ?case by simp
qed

text \<open>A loop that fills a fresh array from the elements of another.\<close>

lemma foldl_fill:
  "foldl (\<lambda>ys i. ys[i := f (xs ! i)]) (replicate (length xs) z) [0 ..< length xs] = map f xs"
proof -
  have "foldl (\<lambda>ys i. ys[i := f (xs ! i)]) (replicate (length xs) z) [0 ..< length xs]
        = map (\<lambda>i. f (xs ! i)) [0 ..< length xs]"
    by (subst foldl_update_upt) simp_all
  also have "\<dots> = map f xs"
    by (rule nth_equalityI) auto
  finally show ?thesis .
qed

lemma foldl_snoc_upt: "foldl (\<lambda>acc i. acc @ [g i]) a [0 ..< n] = a @ map g [0 ..< n]"
  by (induction n) simp_all

lemma encode_full: "encode (new_Uint8Array bs) = btoa (map (\<lambda>b. char_of (unat b)) bs)"
proof -
  have "map (\<lambda>i. fromCharCode (at_u8 (new_Uint8Array bs) i)) [0 ..< length bs]
        = map (\<lambda>i. char_of (unat (bs ! i))) [0 ..< length bs]"
    by (simp add: fromCharCode_def at_u8_def new_Uint8Array_def)
  also have "\<dots> = map (\<lambda>b. char_of (unat b)) bs"
    by (rule nth_equalityI) auto
  finally show ?thesis
    by (simp add: encode_def foldl_snoc_upt new_Uint8Array_def)
qed

lemma strip_padding_btoa:
  assumes "\<forall>x\<in>set ds. x < 64" "k \<le> 2"
  shows "strip_padding (map b64_digit ds @ replicate k (CHR ''='')) = map b64_digit ds"
proof -
  have nopad: "ds \<noteq> [] \<Longrightarrow> last (map b64_digit ds) \<noteq> CHR ''=''"
    using assms(1) by (simp add: last_map b64_digit_not_pad)
  from assms(2) consider "k = 0" | "k = 1" | "k = 2" by linarith
  then show ?thesis
  proof cases
    case 1
    then show ?thesis using nopad by (cases "ds = []") (auto simp: strip_padding_def)
  next
    case 2
    then show ?thesis using nopad by (cases "ds = []") (auto simp: strip_padding_def butlast_append)
  next
    case 3
    then have "replicate k (CHR ''='') = [CHR ''='', CHR ''='']" by (simp add: numeral_2_eq_2)
    then show ?thesis by (simp add: strip_padding_def butlast_append)
  qed
qed

lemma mod3_step: "Suc (Suc (Suc n)) mod 3 = n mod 3"
  by presburger

lemma mod4_step: "Suc (Suc (Suc (Suc n))) mod 4 = n mod 4"
  by presburger

lemma btoa_length_padded: "(length (sextets xs) + (3 - length xs mod 3) mod 3) mod 4 = 0"
  by (induction xs rule: sextets.induct) (simp_all add: mod3_step mod4_step)

lemma sextets_length_not1: "length (sextets xs) mod 4 \<noteq> 1"
  by (induction xs rule: sextets.induct) (simp_all add: mod4_step)

lemma atob_btoa: "atob (btoa s) = Inr s"
proof -
  let ?xs = "map of_char s :: nat list"
  let ?ds = "sextets ?xs"
  let ?k = "(3 - length s mod 3) mod 3"
  have xs: "\<forall>x\<in>set ?xs. x < 256" by auto
  then have ds: "\<forall>y\<in>set ?ds. y < 64" by (rule sextets_lt)
  have nospace: "filter (\<lambda>c. \<not> ascii_whitespace c) (btoa s) = btoa s"
  proof -
    have "\<not> ascii_whitespace (CHR ''='')" by (simp add: ascii_whitespace_def)
    then show ?thesis using ds by (auto simp: btoa_def filter_id_conv b64_digit_not_space)
  qed
  have len: "length (btoa s) mod 4 = 0"
    using btoa_length_padded [of "map of_char s"] by (simp add: btoa_def)
  have "?k < 3" by simp
  then have k: "?k \<le> 2" by linarith
  have strip: "strip_padding (btoa s) = map b64_digit ?ds"
    unfolding btoa_def using ds k by (rule strip_padding_btoa)
  have len1: "length (map b64_digit ?ds) mod 4 \<noteq> 1"
    using sextets_length_not1 [of "map of_char s"] by simp
  have valid: "\<not> list_ex (\<lambda>c. b64_value c = None) (map b64_digit ?ds)"
    using ds by (auto simp: list_ex_iff b64_value_digit)
  have vals: "map (\<lambda>c. the (b64_value c)) (map b64_digit ?ds) = ?ds"
    using ds by (simp add: map_idI b64_value_digit)
  have bytes: "map char_of (octets ?ds) = s"
    using xs by (simp add: octets_sextets map_idI)
  have "atob (btoa s)
        = Inr (map char_of (octets (map (\<lambda>c. the (b64_value c)) (map b64_digit ?ds))))"
    using len1 valid by (simp add: atob_def nospace len strip Let_def del: map_map)
  then show ?thesis by (simp only: vals bytes)
qed

lemma byte_lt: "unat (b :: 8 word) < 256"
  using unsigned_less [of b, where 'a = nat] by simp

lemma decode_eq:
  "decode base64
   = (case atob base64 of
        Inl e \<Rightarrow> Inl e
      | Inr binaryString \<Rightarrow> Inr (new_Uint8Array (map (\<lambda>c. word_of_nat (of_char c)) binaryString)))"
  by (simp add: decode_def Let_def foldl_fill [where f = "\<lambda>c. word_of_nat (of_char c)"]
      split: sum.split)

lemma decode_encode: "decode (encode (new_Uint8Array bs)) = Inr (new_Uint8Array bs)"
proof -
  have "map (\<lambda>c. word_of_nat (of_char c)) (map (\<lambda>b. char_of (unat b)) bs) = bs"
    using byte_lt by (simp add: map_idI)
  then show ?thesis by (simp add: decode_eq encode_full atob_btoa)
qed

lemma int16_of_input:
  "foldl (\<lambda>int16 i. int16[i := ToInt16 (times_32768 (input ! i))])
     (replicate (length input) 0) [0 ..< length input]
   = map (\<lambda>x. ToInt16 (times_32768 x)) input"
  by (rule foldl_fill)

lemma onaudioprocess_eq:
  "onaudioprocess input
   = encode (new_Uint8Array (int16_buffer (map (\<lambda>x. ToInt16 (times_32768 x)) input)))"
  by (simp add: onaudioprocess_def int16_of_input)

lemma length_int16_elements: "length (int16_elements bs) = length bs div 2"
  by (induction bs rule: int16_elements.induct) simp_all

lemma js_truncate_of_nat_div: "js_truncate (real a / real b) = int (a div b)"
  by (simp add: js_truncate_def floor_divide_of_nat_eq)

lemma unsigned_long_js_divide:
  "0 < b \<Longrightarrow> unsigned_long (js_divide a b) = (a div b) mod 2 ^ 32"
  by (simp add: js_divide_def js_truncate_of_nat_div nat_mod_distrib)

lemma loop_indices_js_divide:
  assumes "0 < b"
  shows "\<exists>m. loop_indices (js_divide a b) = [0 ..< m] \<and> a div b \<le> m"
proof -
  have "real (a div b) \<le> real a / real b"
    by (metis floor_divide_of_nat_eq of_int_floor_le of_int_of_nat_eq)
  then have "int (a div b) \<le> \<lceil>real a / real b\<rceil>"
    by (simp add: le_ceiling_iff)
  then have "a div b \<le> nat \<lceil>real a / real b\<rceil>" by linarith
  moreover have "loop_indices (js_divide a b) = [0 ..< nat \<lceil>real a / real b\<rceil>]"
    using assms by (simp add: js_divide_def)
  ultimately show ?thesis by blast
qed

lemma foldl_store_upt:
  "foldl (\<lambda>cd i. store_f32 cd i (g i)) cd [0 ..< m]
   = map g [0 ..< min m (length cd)] @ drop m cd"
proof (induction m)
  case 0
  then show ?case by simp
next
  case (Suc m)
  show ?case
  proof (cases "m < length cd")
    case True
    then have "foldl (\<lambda>cd i. store_f32 cd i (g i)) cd [0 ..< Suc m]
               = (map g [0 ..< m] @ drop m cd)[m := g m]"
      using Suc by (simp add: store_f32_def min_def)
    also have "\<dots> = map g [0 ..< m] @ (drop m cd)[0 := g m]"
      by (simp add: list_update_append)
    also have "(drop m cd)[0 := g m] = g m # drop (Suc m) cd"
      using True by (simp flip: Cons_nth_drop_Suc)
    finally show ?thesis using True by (simp add: min_def)
  next
    case False
    then show ?thesis using Suc by (simp add: store_f32_def min_def)
  qed
qed

lemma fill_channel_eq:
  assumes "0 < nc" "channel < nc" "length cd = length ws div nc"
  shows "fill_channel ws nc (js_divide (length ws) nc) channel cd
         = map (\<lambda>i. Finite (real_of_int (sint (ws ! (i * nc + channel))) / 32768))
             [0 ..< length ws div nc]"
proof -
  let ?q = "length ws div nc"
  obtain m where m: "loop_indices (js_divide (length ws) nc) = [0 ..< m]" "?q \<le> m"
    using loop_indices_js_divide [OF assms(1)] by blast
  have inrange: "i * nc + channel < length ws" if "i < ?q" for i
  proof -
    have "i * nc + channel < Suc i * nc" using assms(2) by simp
    also have "\<dots> \<le> ?q * nc" using that by (simp add: Suc_leI mult_le_mono1 del: mult_Suc)
    also have "\<dots> \<le> length ws" by simp
    finally show ?thesis .
  qed
  have "fill_channel ws nc (js_divide (length ws) nc) channel cd
        = map (\<lambda>i. over_32768 (at_i16 ws (i * nc + channel))) [0 ..< ?q]"
    using m assms(3) by (simp add: fill_channel_def foldl_store_upt min_def)
  also have "\<dots> = map (\<lambda>i. Finite (real_of_int (sint (ws ! (i * nc + channel))) / 32768)) [0 ..< ?q]"
    using inrange by (simp add: over_32768_def at_i16_def)
  finally show ?thesis .
qed

lemma foldl_channels:
  "k \<le> length (channelData buf) \<Longrightarrow>
   foldl (\<lambda>b channel. b\<lparr>channelData := (channelData b)[channel := F channel (channelData b ! channel)]\<rparr>)
     buf [0 ..< k]
   = buf\<lparr>channelData := map (\<lambda>c. F c (channelData buf ! c)) [0 ..< k] @ drop k (channelData buf)\<rparr>"
proof (induction k)
  case 0
  then show ?case by simp
next
  case (Suc k)
  let ?cs = "channelData buf"
  have "(map (\<lambda>c. F c (?cs ! c)) [0 ..< k] @ drop k ?cs)[k := F k (?cs ! k)]
        = map (\<lambda>c. F c (?cs ! c)) [0 ..< k] @ (drop k ?cs)[0 := F k (?cs ! k)]"
    by (simp add: list_update_append)
  also have "(drop k ?cs)[0 := F k (?cs ! k)] = F k (?cs ! k) # drop (Suc k) ?cs"
    using Suc.prems by (simp flip: Cons_nth_drop_Suc)
  finally show ?case using Suc by (simp add: nth_append)
qed




lemma decodeAudioData_result:
  assumes "length (buffer d) < 2 ^ 33"
  shows "decodeAudioData d ctx rate nc =
    (if length (buffer d) mod 2 \<noteq> 0 then Inl RangeError
     else case ctx of
       None \<Rightarrow> Inl TypeError
     | Some c \<Rightarrow>
         if nc = 0 \<or> max 32 (maxChannels c) < nc \<or> length (buffer d) div 2 div nc = 0
            \<or> rate = 0 \<or> rate < min 8000 (minSampleRate c) \<or> max 96000 (maxSampleRate c) < rate
         then Inl NotSupportedError
         else Inr (decoded (int16_elements (buffer d)) rate nc))"
proof (cases "length (buffer d) mod 2 \<noteq> 0")
  case True
  then show ?thesis by (simp add: decodeAudioData_def new_Int16Array_def)
next
  case even: False
  let ?ws = "int16_elements (buffer d)"
  let ?q = "length ?ws div nc"
  have len: "length ?ws = length (buffer d) div 2" by (rule length_int16_elements)
  show ?thesis
  proof (cases ctx)
    case None
    then show ?thesis using even
      by (simp add: decodeAudioData_def new_Int16Array_def createBuffer_def)
  next
    case (Some c)
    show ?thesis
    proof (cases "nc = 0")
      case True
      then show ?thesis using even Some
        by (simp add: decodeAudioData_def new_Int16Array_def createBuffer_def Let_def)
    next
      case False
      then have nc: "0 < nc" by simp
      have "?q \<le> length (buffer d) div 2" by (simp add: len)
      also have "\<dots> < 2 ^ 32" using assms by simp
      finally have ul: "unsigned_long (js_divide (length ?ws) nc) = ?q"
        using nc by (simp add: unsigned_long_js_divide)
      show ?thesis
      proof (cases "max 32 (maxChannels c) < nc \<or> ?q = 0
            \<or> rate = 0 \<or> rate < min 8000 (minSampleRate c) \<or> max 96000 (maxSampleRate c) < rate")
        case True
        then show ?thesis using even Some nc
          by (simp add: decodeAudioData_def new_Int16Array_def createBuffer_def Let_def
                ul [unfolded len] len)
      next
        case ok: False
        let ?buf = "\<lparr>sampleRate = rate, frameLength = ?q,
                     channelData = replicate nc (replicate ?q (Finite 0))\<rparr>"
        have cb: "createBuffer (Some c) nc (js_divide (length ?ws) nc) rate = Inr ?buf"
          using nc ok by (simp add: createBuffer_def ul Let_def)
        have "map (\<lambda>ch. fill_channel ?ws nc (js_divide (length ?ws) nc) ch (channelData ?buf ! ch)) [0 ..< nc]
              = map (\<lambda>ch. map (\<lambda>i. Finite (real_of_int (sint (?ws ! (i * nc + ch))) / 32768)) [0 ..< ?q]) [0 ..< nc]"
          using nc by (intro map_cong refl fill_channel_eq) simp_all
        then have "decodeAudioData d ctx rate nc = Inr (decoded ?ws rate nc)"
          using even Some
          by (simp add: decodeAudioData_def new_Int16Array_def cb Let_def foldl_channels decoded_def)
        then show ?thesis using even Some nc ok by (simp add: len)
      qed
    qed
  qed
qed

lemma sint_int16: "sint (word_of_int t :: 16 word) = (t + 32768) mod 65536 - 32768"
  by (simp add: sint_sbintrunc' signed_take_bit_eq_take_bit_shift take_bit_eq_mod)

lemma quantization:
  assumes "- 1 \<le> x" "x < 1"
  shows "\<bar>real_of_int (sint (ToInt16 (times_32768 (Finite x)))) / 32768 - x\<bar> \<le> 1 / 32768"
proof -
  let ?y = "x * 32768"
  let ?t = "js_truncate ?y"
  have y: "- 32768 \<le> ?y" "?y < 32768" using assms by simp_all
  have lo: "- 32768 \<le> ?t" using y by (simp add: js_truncate_def le_floor_iff le_ceiling_iff)
  have hi: "?t < 32768" using y by (simp add: js_truncate_def floor_less_iff ceiling_less_iff)
  have close: "\<bar>real_of_int ?t - ?y\<bar> \<le> 1"
    unfolding js_truncate_def by (simp; linarith)
  have "sint (ToInt16 (times_32768 (Finite x))) = ?t"
    using lo hi by (simp add: sint_int16)
  then have "real_of_int (sint (ToInt16 (times_32768 (Finite x)))) / 32768 - x
             = (real_of_int ?t - ?y) / 32768" by (simp add: field_simps)
  also have "\<bar>\<dots>\<bar> \<le> 1 / 32768" using close by (simp add: divide_le_cancel)
  finally show ?thesis .
qed

lemma roundtrip_eq:
  assumes "1 \<le> length input" "length input < 2 ^ 32"
  shows "decode_payload (Some c) (onaudioprocess input)
         = Inr \<lparr>sampleRate = 24000, frameLength = length input,
                channelData = [map (\<lambda>x. Finite (real_of_int (sint (ToInt16 (times_32768 x))) / 32768)) input]\<rparr>"
proof -
  let ?ws = "map (\<lambda>x. ToInt16 (times_32768 x)) input"
  let ?d = "new_Uint8Array (int16_buffer ?ws)"
  have buf: "buffer ?d = int16_buffer ?ws" by (simp add: new_Uint8Array_def)
  have "input \<noteq> []" using assms(1) by auto
  moreover have "length (buffer ?d) < 2 ^ 33" using assms(2) by (simp add: buf length_int16_buffer)
  ultimately have "decodeAudioData ?d (Some c) 24000 1 = Inr (decoded ?ws 24000 1)"
    by (subst decodeAudioData_result) (simp_all add: buf length_int16_buffer int16_elements_buffer)
  moreover have "map (\<lambda>i. Finite (real_of_int (sint (?ws ! i)) / 32768)) [0 ..< length input]
                 = map (\<lambda>x. Finite (real_of_int (sint (ToInt16 (times_32768 x))) / 32768)) input"
    by (rule nth_equalityI) auto
  ultimately show ?thesis
    by (simp add: decode_payload_def onaudioprocess_eq decode_encode decoded_def)
qed


section \<open>The round trip of a sample buffer\<close>

text \<open>
  Claim C1, amended to the half-open range: for every sample buffer of length 1 to
  100,000 whose values all lie in \<open>[-1, 1)\<close>, what \<^verbatim>\<open>onaudioprocess\<close> sends, decoded
  by \<^verbatim>\<open>decode\<close> and \<^verbatim>\<open>decodeAudioData\<close> with one channel, is a buffer of as many
  frames, each within \<open>1/32768\<close> of the sample it came from.
\<close>

theorem roundtrip_within_quantization:
  assumes "1 \<le> length xs" and "length xs \<le> 100000" and "\<forall>x\<in>set xs. - 1 \<le> x \<and> x < 1"
  shows "\<exists>ys. decode_payload (Some ctx) (onaudioprocess (map Finite xs))
               = Inr \<lparr>sampleRate = 24000, frameLength = length xs, channelData = [map Finite ys]\<rparr>
            \<and> length ys = length xs
            \<and> (\<forall>i<length xs. \<bar>ys ! i - xs ! i\<bar> \<le> 1 / 32768)"
proof -
  let ?ys = "map (\<lambda>x. real_of_int (sint (ToInt16 (times_32768 (Finite x)))) / 32768) xs"
  have "length (map Finite xs) < 2 ^ 32" using assms(2) by simp
  with assms(1) have "decode_payload (Some ctx) (onaudioprocess (map Finite xs))
        = Inr \<lparr>sampleRate = 24000, frameLength = length xs, channelData = [map Finite ?ys]\<rparr>"
    by (subst roundtrip_eq) (simp_all add: comp_def)
  moreover have "\<forall>i<length xs. \<bar>?ys ! i - xs ! i\<bar> \<le> 1 / 32768"
  proof (intro allI impI)
    fix i assume i: "i < length xs"
    then have "xs ! i \<in> set xs" by simp
    with assms(3) have "- 1 \<le> xs ! i" "xs ! i < 1" by auto
    from quantization [OF this] show "\<bar>?ys ! i - xs ! i\<bar> \<le> 1 / 32768"
      using i by simp
  qed
  ultimately show ?thesis by (intro exI [of _ ?ys]) simp
qed



text \<open>
  The same round trip at the sample \<open>1.0\<close>, which the claim as stated includes:
  \<open>1.0 * 32768 = 32768\<close> wraps to \<open>-32768\<close>, and comes back as \<open>-1.0\<close>.
\<close>

theorem roundtrip_full_scale_counterexample:
  "decode_payload (Some browser) (onaudioprocess [Finite 1])
     = Inr \<lparr>sampleRate = 24000, frameLength = 1, channelData = [[Finite (- 1)]]\<rparr>
   \<and> \<not> \<bar>(- 1) - (1 :: real)\<bar> \<le> 1 / 32768"
  by (simp add: roundtrip_eq js_truncate_def sint_int16)

theorem roundtrip_within_quantization_witness:
  "\<exists>ys. decode_payload (Some browser) (onaudioprocess (map Finite [1 / 2, - 1, 3 / 10]))
          = Inr \<lparr>sampleRate = 24000, frameLength = 3, channelData = [map Finite ys]\<rparr>
       \<and> length ys = 3
       \<and> (\<forall>i<3. \<bar>ys ! i - [1 / 2, - 1, 3 / 10] ! i\<bar> \<le> 1 / 32768)"
  using roundtrip_within_quantization [of "[1 / 2, - 1, 3 / 10]" browser]
  by (simp add: numeral_3_eq_3)

section \<open>The outbound encoder\<close>

text \<open>
  Claim C7: for every input buffer of \<open>n\<close> samples, the payload is the base64 text of
  exactly \<open>2 * n\<close> bytes, and decodes to them: the little-endian bytes of the 16-bit
  elements (low byte, then high byte), element \<open>i\<close> being \<open>ToInt16\<close> of sample \<open>i\<close>
  times 32768, that is, its truncation wrapped into the signed 16-bit range, with no
  clipping.
\<close>

lemma int16_buffer_nth:
  "i < length ws \<Longrightarrow>
   int16_buffer ws ! (2 * i) = ucast (ws ! i)
   \<and> int16_buffer ws ! (2 * i + 1) = ucast (drop_bit 8 (ws ! i))"
proof (induction ws arbitrary: i)
  case Nil
  then show ?case by simp
next
  case (Cons w ws)
  show ?case
  proof (cases i)
    case 0
    then show ?thesis by (simp add: int16_buffer_def int16_bytes_def)
  next
    case (Suc j)
    with Cons.prems have "j < length ws" by simp
    from Cons.IH [OF this] show ?thesis
      by (simp add: Suc int16_buffer_def int16_bytes_def)
  qed
qed

lemma uint_int16: "uint (word_of_int t :: 16 word) = t mod 65536"
  by (simp add: unsigned_of_int take_bit_eq_mod)

lemma signed_wrap_cases:
  fixes t :: int
  defines "u \<equiv> t mod 65536"
  shows "(t + 32768) mod 65536 - 32768 = (if u < 32768 then u else u - 65536)"
proof -
  have u: "0 \<le> u" "u < 65536" by (simp_all add: u_def)
  have "(t + 32768) mod 65536 = (u + 32768) mod 65536"
    unfolding u_def by (simp add: mod_add_left_eq)
  also have "\<dots> = (if u < 32768 then u + 32768 else u - 32768)"
  proof (cases "u < 32768")
    case True
    then show ?thesis using u by simp
  next
    case False
    have "u + 32768 = u - 32768 + 65536" by simp
    then have "(u + 32768) mod 65536 = (u - 32768) mod 65536"
      by (simp only: mod_add_self2)
    also have "\<dots> = u - 32768" using False u by simp
    finally show ?thesis using False by simp
  qed
  finally show ?thesis by (simp split: if_splits)
qed

lemma signed_bytes:
  fixes t :: int
  defines "s \<equiv> (t + 32768) mod 65536 - 32768"
  shows "s mod 256 = t mod 65536 mod 256" and "s div 256 mod 256 = t mod 65536 div 256"
proof -
  let ?u = "t mod 65536"
  have u: "0 \<le> ?u" "?u < 65536" by simp_all
  then have hi: "0 \<le> ?u div 256" "?u div 256 < 256" by simp_all
  have s: "s = (if ?u < 32768 then ?u else ?u - 65536)"
    unfolding s_def by (rule signed_wrap_cases)
  have a: "(?u - 65536) mod 256 = ?u mod 256"
    using mod_mult_self4 [of 256 "- 256" ?u] by simp
  have "(?u - 65536) div 256 = ?u div 256 - 256"
    using div_mult_self4 [of 256 "- 256" ?u] by simp
  then have b: "(?u - 65536) div 256 mod 256 = ?u div 256"
    using hi mod_add_self2 [of "?u div 256 - 256" 256] by simp
  show "s mod 256 = ?u mod 256" using a by (simp add: s)
  show "s div 256 mod 256 = ?u div 256" using b hi by (simp add: s)
qed

lemma div3_step: "(5 + n) div 3 = Suc (Suc (Suc n) div 3)"
  by presburger

lemma btoa_length_groups:
  "length (sextets xs) + (3 - length xs mod 3) mod 3 = 4 * ((length xs + 2) div 3)"
  by (induction xs rule: sextets.induct) (simp_all add: mod3_step div3_step)

lemma length_btoa: "length (btoa s) = 4 * ((length s + 2) div 3)"
  using btoa_length_groups [of "map of_char s"] by (simp add: btoa_def)

lemma btoa_alphabet:
  assumes "c \<in> set (btoa s)"
  shows "(65 \<le> (of_char c :: nat) \<and> (of_char c :: nat) \<le> 90)
         \<or> (97 \<le> (of_char c :: nat) \<and> (of_char c :: nat) \<le> 122)
         \<or> (48 \<le> (of_char c :: nat) \<and> (of_char c :: nat) \<le> 57)
         \<or> (of_char c :: nat) = 43 \<or> (of_char c :: nat) = 47 \<or> (of_char c :: nat) = 61"
proof -
  have "\<forall>x\<in>set (map of_char s :: nat list). x < 256" by auto
  then have ds: "\<forall>y\<in>set (sextets (map of_char s)). y < 64" by (rule sextets_lt)
  from assms consider n where "n < 64" "c = b64_digit n" | "c = CHR ''=''"
    using ds by (auto simp: btoa_def)
  then show ?thesis
  proof cases
    case 1
    then show ?thesis by (auto simp: b64_digit_def)
  next
    case 2
    then show ?thesis by simp
  qed
qed

text \<open>
  Claim C7: for every input buffer of \<open>n\<close> samples, the payload is a base64 text (4
  characters for every 3 bytes begun, each a letter, a digit, \<open>+\<close>, \<open>/\<close> or the padding
  \<open>=\<close>) that \<^verbatim>\<open>decode\<close> reads back as exactly \<open>2 * n\<close> bytes. Bytes \<open>2 * i\<close> and
  \<open>2 * i + 1\<close> are the low and the high byte of the 16-bit signed integer \<open>s\<close> that
  sample \<open>i\<close> becomes: the sample times 32768, truncated towards zero to \<open>t\<close>, and \<open>t\<close>
  wrapped into \<open>-32768..32767\<close>, with no clipping. A sample that is not finite
  becomes 0.
\<close>

theorem encoder_output:
  "\<exists>bs. decode (onaudioprocess input) = Inr (new_Uint8Array bs)
     \<and> length bs = 2 * length input
     \<and> (\<forall>i<length input.
          (case input ! i of
             Finite x \<Rightarrow>
               (let t = (if 0 \<le> x * 32768 then \<lfloor>x * 32768\<rfloor> else \<lceil>x * 32768\<rceil>);
                    s = (t + 32768) mod 65536 - 32768
                in int (unat (bs ! (2 * i))) = s mod 256
                   \<and> int (unat (bs ! (2 * i + 1))) = s div 256 mod 256)
           | PosInf \<Rightarrow> bs ! (2 * i) = 0 \<and> bs ! (2 * i + 1) = 0
           | NegInf \<Rightarrow> bs ! (2 * i) = 0 \<and> bs ! (2 * i + 1) = 0
           | NaN \<Rightarrow> bs ! (2 * i) = 0 \<and> bs ! (2 * i + 1) = 0))
     \<and> length (onaudioprocess input) = 4 * ((2 * length input + 2) div 3)
     \<and> (\<forall>c\<in>set (onaudioprocess input).
          (65 \<le> (of_char c :: nat) \<and> (of_char c :: nat) \<le> 90)
          \<or> (97 \<le> (of_char c :: nat) \<and> (of_char c :: nat) \<le> 122)
          \<or> (48 \<le> (of_char c :: nat) \<and> (of_char c :: nat) \<le> 57)
          \<or> (of_char c :: nat) = 43 \<or> (of_char c :: nat) = 47 \<or> (of_char c :: nat) = 61)"
proof -
  let ?ws = "map (\<lambda>x. ToInt16 (times_32768 x)) input"
  let ?bs = "int16_buffer ?ws"
  have payload: "onaudioprocess input = btoa (map (\<lambda>b. char_of (unat b)) ?bs)"
    by (simp add: onaudioprocess_eq encode_full)
  have readback: "decode (onaudioprocess input) = Inr (new_Uint8Array ?bs)"
    by (simp add: onaudioprocess_eq decode_encode)
  have len: "length ?bs = 2 * length input"
    by (simp add: length_int16_buffer)
  have bytes: "(case input ! i of
             Finite x \<Rightarrow>
               (let t = (if 0 \<le> x * 32768 then \<lfloor>x * 32768\<rfloor> else \<lceil>x * 32768\<rceil>);
                    s = (t + 32768) mod 65536 - 32768
                in int (unat (?bs ! (2 * i))) = s mod 256
                   \<and> int (unat (?bs ! (2 * i + 1))) = s div 256 mod 256)
           | PosInf \<Rightarrow> ?bs ! (2 * i) = 0 \<and> ?bs ! (2 * i + 1) = 0
           | NegInf \<Rightarrow> ?bs ! (2 * i) = 0 \<and> ?bs ! (2 * i + 1) = 0
           | NaN \<Rightarrow> ?bs ! (2 * i) = 0 \<and> ?bs ! (2 * i + 1) = 0)"
    if i: "i < length input" for i
  proof -
    let ?w = "ToInt16 (times_32768 (input ! i))"
    have nth: "?bs ! (2 * i) = ucast ?w" "?bs ! (2 * i + 1) = ucast (drop_bit 8 ?w)"
      using int16_buffer_nth [of i ?ws] i by simp_all
    have le: "map unat (int16_bytes ?w) = [unat ?w mod 256, unat ?w div 256]"
      by (rule int16_bytes_little_endian)
    then have lo: "unat (ucast ?w :: 8 word) = unat ?w mod 256"
      and hi: "unat (ucast (drop_bit 8 ?w) :: 8 word) = unat ?w div 256"
      by (simp_all add: int16_bytes_def)
    show ?thesis
    proof (cases "input ! i")
      case (Finite x)
      let ?t = "js_truncate (x * 32768)"
      have w: "int (unat ?w) = ?t mod 65536"
        by (simp add: Finite uint_int16)
      have "int (unat (?bs ! (2 * i))) = ?t mod 65536 mod 256"
        unfolding nth lo using w by (simp add: zmod_int)
      moreover have "int (unat (?bs ! (2 * i + 1))) = ?t mod 65536 div 256"
        unfolding nth hi using w by (simp add: zdiv_int)
      ultimately show ?thesis
        by (simp add: Finite Let_def signed_bytes js_truncate_def)
    qed (use nth in simp_all)
  qed
  have plen: "length (onaudioprocess input) = 4 * ((2 * length input + 2) div 3)"
    by (simp add: payload length_btoa len)
  have alpha: "\<forall>c\<in>set (onaudioprocess input).
          (65 \<le> (of_char c :: nat) \<and> (of_char c :: nat) \<le> 90)
          \<or> (97 \<le> (of_char c :: nat) \<and> (of_char c :: nat) \<le> 122)
          \<or> (48 \<le> (of_char c :: nat) \<and> (of_char c :: nat) \<le> 57)
          \<or> (of_char c :: nat) = 43 \<or> (of_char c :: nat) = 47 \<or> (of_char c :: nat) = 61"
    unfolding payload by (intro ballI btoa_alphabet)
  from readback len bytes plen alpha show ?thesis by blast
qed

lemma byte_from_uint: "uint (b :: 8 word) = k \<Longrightarrow> b = word_of_int k"
  by auto

text \<open>
  Four samples: a half, one and a half (beyond full scale, wrapped to \<open>-16384\<close>), a
  negative one that truncation takes to \<open>-1\<close> where rounding down would give \<open>-2\<close>,
  and \<open>NaN\<close>.
\<close>

theorem encoder_output_witness:
  "decode (onaudioprocess [Finite (1 / 2), Finite (3 / 2), Finite (- 3 / 65536), NaN])
     = Inr (new_Uint8Array [0, 64, 0, 192, 255, 255, 0, 0])
   \<and> onaudioprocess [Finite (1 / 2), Finite (3 / 2), Finite (- 3 / 65536), NaN] = ''AEAAwP//AAA=''
   \<and> length ''AEAAwP//AAA='' = 4 * ((2 * length [Finite (1 / 2), Finite (3 / 2), Finite (- 3 / 65536), NaN] + 2) div 3)"
proof -
  let ?inp = "[Finite (1 / 2), Finite (3 / 2), Finite (- 3 / 65536), NaN]"
  from encoder_output [of ?inp] obtain bs where
    d: "decode (onaudioprocess ?inp) = Inr (new_Uint8Array bs)"
    and l: "length bs = 8"
    and b: "\<forall>i<4. (case ?inp ! i of
             Finite x \<Rightarrow>
               (let t = (if 0 \<le> x * 32768 then \<lfloor>x * 32768\<rfloor> else \<lceil>x * 32768\<rceil>);
                    s = (t + 32768) mod 65536 - 32768
                in int (unat (bs ! (2 * i))) = s mod 256
                   \<and> int (unat (bs ! (2 * i + 1))) = s div 256 mod 256)
           | PosInf \<Rightarrow> bs ! (2 * i) = 0 \<and> bs ! (2 * i + 1) = 0
           | NegInf \<Rightarrow> bs ! (2 * i) = 0 \<and> bs ! (2 * i + 1) = 0
           | NaN \<Rightarrow> bs ! (2 * i) = 0 \<and> bs ! (2 * i + 1) = 0)"
    by auto
  from b [rule_format, of 0] have b0: "bs ! 0 = 0" "bs ! 1 = 64"
    by (auto dest!: byte_from_uint)
  from b [rule_format, of 1] have b1: "bs ! 2 = 0" "bs ! 3 = 192"
    by (auto dest!: byte_from_uint)
  from b [rule_format, of 2] have b2: "bs ! 4 = 255" "bs ! 5 = 255"
    by (auto dest!: byte_from_uint)
  from b [rule_format, of 3] have b3: "bs ! 6 = 0" "bs ! 7 = 0"
    by auto
  have "bs = map ((!) bs) [0 ..< 8]"
    using l map_nth [of bs] by simp
  also have "\<dots> = [0, 64, 0, 192, 255, 255, 0, 0]"
    using b0 b1 b2 b3 by (simp add: upt_rec eval_nat_numeral)
  finally have "bs = [0, 64, 0, 192, 255, 255, 0, 0]" .
  moreover have "onaudioprocess ?inp = ''AEAAwP//AAA=''"
    by code_simp
  ultimately show ?thesis using d by simp
qed

text \<open>A sample beyond full scale is not clipped: \<open>1.5\<close> becomes \<open>-16384\<close>.\<close>

lemma no_clipping_example:
  "sint (ToInt16 (times_32768 (Finite (3 / 2)))) = - 16384"
  by (simp add: js_truncate_def sint_int16)

text \<open>
  Property X1: \<^verbatim>\<open>decode\<close> inverts \<^verbatim>\<open>encode\<close>. For every view, decoding its encoding
  gives a fresh array holding the bytes of the view.
\<close>

lemma encode_view:
  assumes "byteOffset v + byteLength v \<le> length (buffer v)"
  shows "encode v = btoa (map (\<lambda>b. char_of (unat b)) (take (byteLength v) (drop (byteOffset v) (buffer v))))"
proof -
  have "map (\<lambda>i. fromCharCode (at_u8 v i)) [0 ..< byteLength v]
        = map (\<lambda>b. char_of (unat b)) (take (byteLength v) (drop (byteOffset v) (buffer v)))"
    using assms by (intro nth_equalityI) (simp_all add: fromCharCode_def at_u8_def)
  then show ?thesis by (simp add: encode_def foldl_snoc_upt)
qed

theorem decode_inverts_encode:
  assumes "byteOffset v + byteLength v \<le> length (buffer v)"
  shows "decode (encode v) = Inr (new_Uint8Array (take (byteLength v) (drop (byteOffset v) (buffer v))))"
proof -
  let ?bs = "take (byteLength v) (drop (byteOffset v) (buffer v))"
  have "encode v = encode (new_Uint8Array ?bs)"
    using assms by (simp add: encode_view encode_full)
  then show ?thesis by (simp add: decode_encode)
qed

theorem decode_inverts_encode_witness:
  "byteOffset \<lparr>buffer = [9, 77, 97, 110, 9], byteOffset = 1, byteLength = 3\<rparr>
     + byteLength \<lparr>buffer = [9, 77, 97, 110, 9], byteOffset = 1, byteLength = 3\<rparr>
     \<le> length (buffer \<lparr>buffer = [9, 77, 97, 110, 9], byteOffset = 1, byteLength = 3\<rparr>)
   \<and> decode (encode \<lparr>buffer = [9, 77, 97, 110, 9], byteOffset = 1, byteLength = 3\<rparr>)
       = Inr (new_Uint8Array [77, 97, 110])"
  using decode_inverts_encode [of "\<lparr>buffer = [9, 77, 97, 110, 9], byteOffset = 1, byteLength = 3\<rparr>"]
  by simp

section \<open>The inbound decoder\<close>

text \<open>
  Claim C8, amended: \<^verbatim>\<open>decodeAudioData\<close> raises a \<^verbatim>\<open>RangeError\<close> on an odd byte
  length. On an even byte length that holds at least one frame (with 1 to 32 channels
  and a rate from 8000 to 96000, on a buffer below \<open>2^33\<close> bytes) it returns a buffer,
  also when the channel count does not divide the sample count: the frame count is then
  the quotient rounded down, frame \<open>i\<close> of channel \<open>ch\<close> is sample \<open>i * nc + ch\<close> over
  32768, and the samples left over are dropped without an error.
\<close>

theorem decodeAudioData_outcomes:
  "(length (buffer d) mod 2 = 1 \<longrightarrow> decodeAudioData d ctx rate nc = Inl RangeError)
   \<and> (length (buffer d) mod 2 = 0 \<and> length (buffer d) < 2 ^ 33
        \<and> 1 \<le> nc \<and> nc \<le> 32 \<and> nc \<le> length (buffer d) div 2
        \<and> 8000 \<le> rate \<and> rate \<le> 96000 \<longrightarrow>
      (\<exists>b. decodeAudioData d (Some c) rate nc = Inr b
           \<and> sampleRate b = rate
           \<and> frameLength b = length (buffer d) div 2 div nc
           \<and> length (channelData b) = nc
           \<and> (\<forall>ch<nc. length (channelData b ! ch) = frameLength b
                 \<and> (\<forall>i<frameLength b. channelData b ! ch ! i
                       = Finite (real_of_int (sint (int16_elements (buffer d) ! (i * nc + ch))) / 32768)))))"
proof (intro conjI impI)
  assume "length (buffer d) mod 2 = 1"
  then show "decodeAudioData d ctx rate nc = Inl RangeError"
    by (simp add: decodeAudioData_def new_Int16Array_def)
next
  assume wf: "length (buffer d) mod 2 = 0 \<and> length (buffer d) < 2 ^ 33
        \<and> 1 \<le> nc \<and> nc \<le> 32 \<and> nc \<le> length (buffer d) div 2
        \<and> 8000 \<le> rate \<and> rate \<le> 96000"
  let ?ws = "int16_elements (buffer d)"
  have "0 < length (buffer d) div 2 div nc"
    using wf by (simp add: div_greater_zero_iff)
  with wf have "decodeAudioData d (Some c) rate nc = Inr (decoded ?ws rate nc)"
    by (subst decodeAudioData_result) auto
  then show "\<exists>b. decodeAudioData d (Some c) rate nc = Inr b
           \<and> sampleRate b = rate
           \<and> frameLength b = length (buffer d) div 2 div nc
           \<and> length (channelData b) = nc
           \<and> (\<forall>ch<nc. length (channelData b ! ch) = frameLength b
                 \<and> (\<forall>i<frameLength b. channelData b ! ch ! i
                       = Finite (real_of_int (sint (?ws ! (i * nc + ch))) / 32768)))"
    by (simp add: decoded_def length_int16_elements)
qed

text \<open>
  One byte, and three samples for two channels: the first raises, the second is cut
  to one frame.
\<close>

theorem decodeAudioData_outcomes_witness:
  "length (buffer (new_Uint8Array [7])) mod 2 = 1
   \<and> decodeAudioData (new_Uint8Array [7]) None 24000 1 = Inl RangeError
   \<and> length (buffer (new_Uint8Array [1, 0, 2, 0, 3, 0])) mod 2 = 0
   \<and> (\<exists>b. decodeAudioData (new_Uint8Array [1, 0, 2, 0, 3, 0]) (Some browser) 24000 2 = Inr b
          \<and> frameLength b = 1
          \<and> channelData b ! 0 ! 0 = Finite (1 / 32768)
          \<and> channelData b ! 1 ! 0 = Finite (2 / 32768))"
  using decodeAudioData_outcomes [of "new_Uint8Array [7]" None 24000 1 browser]
    decodeAudioData_outcomes [of "new_Uint8Array [1, 0, 2, 0, 3, 0]" None 24000 2 browser]
  by (auto simp: new_Uint8Array_def)

text \<open>
  Against the claim as stated: an odd byte length raises instead of yielding a
  truncated result, and the empty input, whose byte length is even and divisible,
  raises as well, \<^verbatim>\<open>createBuffer\<close> refusing a length of zero.
\<close>

theorem decodeAudioData_raises_counterexample:
  "decodeAudioData (new_Uint8Array [0]) (Some browser) 24000 1 = Inl RangeError
   \<and> decodeAudioData (new_Uint8Array []) (Some browser) 24000 1 = Inl NotSupportedError"
  by (simp add: decodeAudioData_result new_Uint8Array_def)

text \<open>
  Claim C10: for every \<^verbatim>\<open>Uint8Array\<close> that does not span its underlying buffer,
  \<^verbatim>\<open>decodeAudioData\<close> returns what it returns for the whole buffer: the frame count is
  the byte length of the whole buffer divided by 2 and by the channel count, and the
  frames are the 16-bit samples of the whole buffer.
\<close>

theorem decodeAudioData_reads_whole_buffer:
  assumes "byteOffset d \<noteq> 0 \<or> byteLength d < length (buffer d)"
    and "length (buffer d) < 2 ^ 33"
    and "decodeAudioData d ctx rate nc = Inr b"
  shows "decodeAudioData (new_Uint8Array (buffer d)) ctx rate nc = Inr b
         \<and> frameLength b = length (buffer d) div 2 div nc
         \<and> channelData b
             = map (\<lambda>ch. map (\<lambda>i. Finite (real_of_int (sint (int16_elements (buffer d) ! (i * nc + ch))) / 32768))
                              [0 ..< length (buffer d) div 2 div nc]) [0 ..< nc]"
proof -
  have same: "decodeAudioData (new_Uint8Array (buffer d)) ctx rate nc = decodeAudioData d ctx rate nc"
    by (simp add: decodeAudioData_def new_Uint8Array_def)
  have "b = decoded (int16_elements (buffer d)) rate nc"
    using assms(3) unfolding decodeAudioData_result [OF assms(2)]
    by (auto split: if_splits option.splits)
  then show ?thesis using assms(3) by (simp add: same decoded_def length_int16_elements)
qed

text \<open>A view of the two middle bytes of six: all three samples are decoded.\<close>

theorem decodeAudioData_reads_whole_buffer_witness:
  "byteOffset \<lparr>buffer = [1, 0, 2, 0, 3, 0], byteOffset = 2, byteLength = 2\<rparr> \<noteq> 0
   \<and> decodeAudioData \<lparr>buffer = [1, 0, 2, 0, 3, 0], byteOffset = 2, byteLength = 2\<rparr>
         (Some browser) 24000 1
       = Inr \<lparr>sampleRate = 24000, frameLength = 3,
              channelData = [[Finite (1 / 32768), Finite (2 / 32768), Finite (3 / 32768)]]\<rparr>
   \<and> decodeAudioData (new_Uint8Array [1, 0, 2, 0, 3, 0]) (Some browser) 24000 1
       = Inr \<lparr>sampleRate = 24000, frameLength = 3,
              channelData = [[Finite (1 / 32768), Finite (2 / 32768), Finite (3 / 32768)]]\<rparr>"
proof -
  let ?d = "\<lparr>buffer = [1, 0, 2, 0, 3, 0], byteOffset = 2, byteLength = 2\<rparr>"
  let ?b = "\<lparr>sampleRate = 24000, frameLength = 3,
              channelData = [[Finite (1 / 32768), Finite (2 / 32768), Finite (3 / 32768)]]\<rparr>"
  have whole: "decodeAudioData ?d (Some browser) 24000 1 = Inr ?b"
    by (simp add: decodeAudioData_result browser_def decoded_def upt_rec)
  show ?thesis
    using decodeAudioData_reads_whole_buffer [of ?d "Some browser" 24000 1 ?b] whole by simp
qed

section \<open>The playback scheduler\<close>

lemma nodes_schedule:
  "nodes (schedule buf t s)
   = nodes s @ [\<lparr>node_buffer = buf, startedAt = max (nextStartTime s) t, stopped = False\<rparr>]"
  by (simp add: schedule_def schedule_with_def Let_def)

lemma nextStartTime_schedule:
  "nextStartTime (schedule buf t s) = max (nextStartTime s) t + duration buf"
  by (simp add: schedule_def schedule_with_def Let_def)

lemma sources_schedule:
  "sources (schedule buf t s) = insert (length (nodes s)) (sources s)"
  by (simp add: schedule_def schedule_with_def Let_def)

text \<open>The double nearest to \<open>x\<close>, once the binary exponent \<open>k\<close> of \<open>x\<close> is known.\<close>

lemma float64_normal:
  assumes "2 powr of_int k \<le> \<bar>x\<bar>" and "\<bar>x\<bar> < 2 powr of_int (k + 1)" and "- 1022 \<le> k"
  shows "float64 x = of_int (round_ties_even (x / 2 powr of_int (k - 52))) * 2 powr of_int (k - 52)"
proof -
  have pos: "0 < \<bar>x\<bar>" using assms(1) by (smt (verit) powr_gt_zero)
  then have "\<lfloor>log 2 \<bar>x\<bar>\<rfloor> = k"
    using assms(1,2) by (simp add: floor_log_eq_powr_iff)
  then show ?thesis using pos assms(3) by (simp add: float64_def Let_def max_def)
qed

lemma float64_powi:
  assumes "2 powi k \<le> \<bar>x\<bar>" and "\<bar>x\<bar> < 2 powi (k + 1)" and "- 1022 \<le> k"
  shows "float64 x = of_int (round_ties_even (x / 2 powi (k - 52))) * 2 powi (k - 52)"
proof -
  have conv: "(2::real) powr real_of_int n = 2 powi n" for n
    by (rule powr_real_of_int') simp_all
  from assms show ?thesis by (rule float64_normal [of k x, unfolded conv])
qed

lemma float64_half: "float64 (1 / 2) = 1 / 2"
  by (subst float64_powi [of "- 1"]) (simp_all add: power_int_minus round_ties_even_def)

lemma float64_three_tenths: "float64 (3 / 10) = 5404319552844595 / 2 ^ 54"
  by (subst float64_powi [of "- 2"]) (simp_all add: power_int_minus round_ties_even_def)

lemma float64_fifth: "float64 (1 / 5) = 7205759403792794 / 2 ^ 55"
  by (subst float64_powi [of "- 3"]) (simp_all add: power_int_minus round_ties_even_def)

lemma float64_four_fifths: "float64 (4 / 5) = 7205759403792794 / 2 ^ 53"
  by (subst float64_powi [of "- 1"]) (simp_all add: power_int_minus round_ties_even_def)

lemma duration64_silence:
  "duration64 (silence 12000) = 1 / 2"
  "duration64 (silence 7200) = float64 (3 / 10)"
  "duration64 (silence 4800) = float64 (1 / 5)"
  by (simp_all add: duration64_def silence_def float64_half)

lemma add64_first: "add64 0 (1 / 2) = 1 / 2"
  by (simp add: add64_def float64_half)

lemma add64_second: "add64 (1 / 2) (float64 (3 / 10)) = float64 (4 / 5)"
  unfolding add64_def float64_three_tenths float64_four_fifths
  by (subst float64_powi [of "- 1"]) (simp_all add: power_int_minus round_ties_even_def)

lemma add64_third: "add64 (float64 (4 / 5)) (float64 (1 / 5)) = 1"
  unfolding add64_def float64_fifth float64_four_fifths
  by (subst float64_powi [of 0]) (simp_all add: power_int_minus round_ties_even_def)

lemma float64_four_fifths_pos: "0 \<le> float64 (4 / 5)"
  by (simp add: float64_four_fifths)

lemma nodes_schedule_with:
  "nodes (schedule_with add dur buf t s)
   = nodes s @ [\<lparr>node_buffer = buf, startedAt = max (nextStartTime s) t, stopped = False\<rparr>]"
  by (simp add: schedule_with_def Let_def)

lemma nextStartTime_schedule_with:
  "nextStartTime (schedule_with add dur buf t s) = add (max (nextStartTime s) t) (dur buf)"
  by (simp add: schedule_with_def Let_def)

lemma schedule_all_ahead:
  "ahead_of_clock add dur (nextStartTime s) arrivals \<Longrightarrow>
   map startedAt (nodes (schedule_all add dur arrivals s))
     = map startedAt (nodes s) @ running_sums add (nextStartTime s) (map (dur \<circ> fst) arrivals)
   \<and> nextStartTime (schedule_all add dur arrivals s)
     = foldl add (nextStartTime s) (map (dur \<circ> fst) arrivals)"
proof (induction arrivals arbitrary: s)
  case Nil
  then show ?case by simp
next
  case (Cons a arrivals)
  obtain buf t where a: "a = (buf, t)" by (cases a)
  from Cons.prems have t: "t \<le> nextStartTime s"
    and rest: "ahead_of_clock add dur (add (nextStartTime s) (dur buf)) arrivals"
    by (simp_all add: a)
  have cursor: "nextStartTime (schedule_with add dur buf t s) = add (nextStartTime s) (dur buf)"
    using t by (simp add: nextStartTime_schedule_with max_def)
  have "ahead_of_clock add dur (nextStartTime (schedule_with add dur buf t s)) arrivals"
    using rest by (simp add: cursor)
  from Cons.IH [OF this] show ?case
    using t by (simp add: a cursor nodes_schedule_with max_def)
qed

lemma running_sums_foldl:
  "running_sums add c ds = map (\<lambda>i. foldl add c (take i ds)) [0 ..< length ds]"
proof (induction ds arbitrary: c)
  case Nil
  then show ?case by simp
next
  case (Cons d ds)
  have "map (\<lambda>i. foldl add c (take i (d # ds))) [0 ..< length (d # ds)]
        = c # map (\<lambda>i. foldl add c (take (Suc i) (d # ds))) [0 ..< length ds]"
    by (simp add: upt_conv_Cons map_Suc_upt [symmetric] del: upt_Suc)
  also have "\<dots> = c # map (\<lambda>i. foldl add (add c d) (take i ds)) [0 ..< length ds]"
    by simp
  finally show ?case by (simp add: Cons.IH)
qed

text \<open>
  Claim C2: for every sequence of decoded buffers scheduled one after the other, with no
  interruption and with the clock never ahead of the cursor, the \<open>i\<close>-th buffer starts
  at the initial cursor plus the durations of the buffers before it, and the cursor ends
  at the initial cursor plus all the durations. The sums are the code's own: each
  duration is added to the running cursor, so a sum is a fold from the left with the
  addition \<open>add\<close> of the code, of which nothing is assumed, associativity least of all;
  nor is anything assumed of the durations \<open>dur\<close>.
\<close>

theorem gapless_scheduling:
  assumes "ahead_of_clock add dur (nextStartTime s) arrivals"
  shows "map startedAt (drop (length (nodes s)) (nodes (schedule_all add dur arrivals s)))
           = map (\<lambda>i. foldl add (nextStartTime s) (map (dur \<circ> fst) (take i arrivals)))
               [0 ..< length arrivals]
         \<and> nextStartTime (schedule_all add dur arrivals s)
           = foldl add (nextStartTime s) (map (dur \<circ> fst) arrivals)"
proof -
  note run = schedule_all_ahead [OF assms]
  have "map startedAt (drop (length (nodes s)) (nodes (schedule_all add dur arrivals s)))
        = drop (length (map startedAt (nodes s)))
            (map startedAt (nodes (schedule_all add dur arrivals s)))"
    by (simp add: drop_map)
  also have "\<dots> = running_sums add (nextStartTime s) (map (dur \<circ> fst) arrivals)"
    by (simp only: run [THEN conjunct1] append_eq_conv_conj drop_append) simp
  also have "\<dots> = map (\<lambda>i. foldl add (nextStartTime s) (map (dur \<circ> fst) (take i arrivals)))
                       [0 ..< length arrivals]"
    by (simp add: running_sums_foldl take_map)
  finally show ?thesis using run by simp
qed

text \<open>
  The scenario of the claim in the arithmetic of doubles: buffers of 12000, 7200 and
  4800 frames at 24000 Hz (0.5 s, 0.3 s and 0.2 s), all arriving at clock 0 on a cursor
  at 0, start at 0, at 0.5 and at the double nearest to 0.8, and leave the cursor at 1.
\<close>

theorem gapless_scheduling_witness:
  "ahead_of_clock add64 duration64 (nextStartTime mounted)
     [(silence 12000, 0), (silence 7200, 0), (silence 4800, 0)]
   \<and> map startedAt (nodes (schedule_all add64 duration64
          [(silence 12000, 0), (silence 7200, 0), (silence 4800, 0)] mounted))
       = [0, 1 / 2, float64 (4 / 5)]
   \<and> nextStartTime (schedule_all add64 duration64
          [(silence 12000, 0), (silence 7200, 0), (silence 4800, 0)] mounted) = 1"
proof -
  have cursor: "nextStartTime mounted = 0" and none: "nodes mounted = []"
    by (simp_all add: mounted_def)
  have ahead: "ahead_of_clock add64 duration64 (nextStartTime mounted)
                 [(silence 12000, 0), (silence 7200, 0), (silence 4800, 0)]"
    by (simp add: cursor duration64_silence add64_first add64_second float64_four_fifths_pos)
  show ?thesis
    using gapless_scheduling [OF ahead] ahead
    by (simp add: cursor none duration64_silence add64_first add64_second add64_third)
qed

text \<open>
  The fold is not the exact sum rounded: three buffers of a tenth of a second leave the
  cursor one unit in the last place above the double nearest to 0.3.
\<close>

lemma float64_tenth: "float64 (1 / 10) = 7205759403792794 / 2 ^ 56"
  by (subst float64_powi [of "- 4"]) (simp_all add: power_int_minus round_ties_even_def)

lemma three_tenths_accumulated:
  "foldl add64 0 [float64 (1 / 10), float64 (1 / 10), float64 (1 / 10)]
     = 5404319552844596 / 2 ^ 54
   \<and> float64 (3 / 10) = 5404319552844595 / 2 ^ 54"
proof -
  have a: "add64 0 (7205759403792794 / 2 ^ 56) = 7205759403792794 / 2 ^ 56"
    unfolding add64_def
    by (subst float64_powi [of "- 4"]) (simp_all add: power_int_minus round_ties_even_def)
  have b: "add64 (7205759403792794 / 2 ^ 56) (7205759403792794 / 2 ^ 56)
           = 7205759403792794 / 2 ^ 55"
    unfolding add64_def
    by (subst float64_powi [of "- 3"]) (simp_all add: power_int_minus round_ties_even_def)
  have c: "add64 (7205759403792794 / 2 ^ 55) (7205759403792794 / 2 ^ 56)
           = 5404319552844596 / 2 ^ 54"
    unfolding add64_def
    by (subst float64_powi [of "- 2"]) (simp_all add: power_int_minus round_ties_even_def)
  show ?thesis
    by (simp only: foldl.simps float64_tenth a b c float64_three_tenths)
qed

text \<open>
  Claim C3: a buffer scheduled when the clock has passed the cursor starts at the
  clock's current time, and no buffer ever starts earlier than the clock's current time.
\<close>

theorem late_arrival_clamped:
  "(nextStartTime s < currentTime \<longrightarrow>
      startedAt (last (nodes (schedule buf currentTime s))) = currentTime)
   \<and> currentTime \<le> startedAt (last (nodes (schedule buf currentTime s)))"
  by (simp add: nodes_schedule)

theorem late_arrival_clamped_witness:
  "nextStartTime (mounted\<lparr>nextStartTime := 1 / 2\<rparr>) < 2
   \<and> startedAt (last (nodes (schedule (silence 4800) 2 (mounted\<lparr>nextStartTime := 1 / 2\<rparr>)))) = 2"
  using late_arrival_clamped [of "mounted\<lparr>nextStartTime := 1 / 2\<rparr>" 2 "silence 4800"]
  by simp

text \<open>
  Property X2: the cursor never moves back when a buffer is scheduled.
\<close>

theorem cursor_never_moves_back: "nextStartTime s \<le> nextStartTime (schedule buf t s)"
proof -
  have "0 \<le> duration buf" by (simp add: duration_def)
  then show ?thesis by (simp add: nextStartTime_schedule max_def)
qed

lemma onmessage_schedules:
  assumes "inline_data msg = Inr (Some base64)" "base64 \<noteq> []"
    and "decode_payload (audioContext s) base64 = Inr buf"
  shows "onmessage msg t s
         = Inr (if is_interrupted msg then interrupt (schedule buf t s) else schedule buf t s)"
  using assms by (simp add: onmessage_def)

lemma inline_data_audio_message: "inline_data (audio_message base64 flag) = Inr (Some base64)"
  by (simp add: inline_data_def audio_message_def)

lemma is_interrupted_audio_message: "is_interrupted (audio_message base64 flag) = flag"
  by (simp add: is_interrupted_def audio_message_def)

lemma decode_two_bytes: "decode ''AAA='' = Inr (new_Uint8Array [0, 0])"
  by (simp add: decode_eq atob_def ascii_whitespace_def strip_padding_def b64_value_def Let_def)

lemma decode_one_byte: "decode ''AA=='' = Inr (new_Uint8Array [0])"
  by (simp add: decode_eq atob_def ascii_whitespace_def strip_padding_def b64_value_def Let_def)

lemma decode_payload_two_bytes: "decode_payload (Some browser) ''AAA='' = Inr (silence 1)"
  by (simp add: decode_payload_def decode_two_bytes decodeAudioData_result new_Uint8Array_def
      browser_def decoded_def silence_def)

lemma decode_payload_one_byte: "decode_payload ctx ''AA=='' = Inl RangeError"
  by (simp add: decode_payload_def decode_one_byte decodeAudioData_result new_Uint8Array_def)

lemma onmessage_two_bytes:
  "audioContext s = Some browser \<Longrightarrow>
   onmessage (audio_message ''AAA='' flag) t s
   = Inr (if flag then interrupt (schedule (silence 1) t s) else schedule (silence 1) t s)"
  by (simp add: onmessage_def inline_data_audio_message decode_payload_two_bytes
      is_interrupted_audio_message)

lemma run_snoc: "run (evs @ [e]) = step (run evs) e"
  by (simp add: run_def)

lemma run_one_buffer_session:
  "run one_buffer_session
   = \<lparr>isActive = True, isConnecting = False, audioContext = Some browser,
      nextStartTime = 1 / 24000, sources = {0},
      nodes = [\<lparr>node_buffer = silence 1, startedAt = 0, stopped = False\<rparr>],
      stream = Some [Live]\<rparr>"
  by (simp add: run_def one_buffer_session_def mounted_def startAnchor_def onopen_def Let_def
      onmessage_two_bytes schedule_def schedule_with_def duration_def silence_def)

text \<open>
  Claim C4, amended: after \<^verbatim>\<open>onmessage\<close> has run to its end on a message carrying the
  interrupted signal (the message has no audio, or audio that decodes; whatever was
  scheduled before, the audio of that message included), the set of sources is empty
  and the cursor is 0, so a buffer scheduled afterwards starts at the clock's current
  time.
\<close>

theorem interruption_resets:
  assumes "is_interrupted msg" and "onmessage msg currentTime s = Inr s'"
  shows "sources s' = {} \<and> nextStartTime s' = 0
         \<and> (\<forall>buf t. 0 \<le> t \<longrightarrow> startedAt (last (nodes (schedule buf t s'))) = t)"
proof -
  from assms obtain s1 where "s' = interrupt s1"
    by (auto simp: onmessage_def split: sum.splits if_splits)
  then have "sources s' = {}" and "nextStartTime s' = 0"
    by (simp_all add: interrupt_def stop_sources_def Let_def)
  then show ?thesis by (simp add: nodes_schedule)
qed

theorem interruption_resets_witness:
  "is_interrupted (audio_message ''AAA='' True)
   \<and> onmessage (audio_message ''AAA='' True) 3 (run one_buffer_session)
       = Inr (interrupt (schedule (silence 1) 3 (run one_buffer_session)))
   \<and> sources (interrupt (schedule (silence 1) 3 (run one_buffer_session))) = {}
   \<and> nextStartTime (interrupt (schedule (silence 1) 3 (run one_buffer_session))) = 0
   \<and> startedAt (last (nodes (schedule (silence 4800) 5
        (interrupt (schedule (silence 1) 3 (run one_buffer_session)))))) = 5"
proof -
  have flag: "is_interrupted (audio_message ''AAA='' True)"
    by (simp add: is_interrupted_audio_message)
  have handled: "onmessage (audio_message ''AAA='' True) 3 (run one_buffer_session)
                 = Inr (interrupt (schedule (silence 1) 3 (run one_buffer_session)))"
    by (simp add: onmessage_two_bytes run_one_buffer_session)
  show ?thesis
    using interruption_resets [OF flag handled] flag handled by simp
qed

text \<open>
  Against the claim as stated: an interrupted message whose audio is one byte long.
  \<^verbatim>\<open>decodeAudioData\<close> raises, the handler stops there, and the branch on
  \<^verbatim>\<open>interrupted\<close> is not reached: the source registered before stays registered and
  the cursor stays where it was.
\<close>

theorem interruption_skipped_counterexample:
  "is_interrupted interrupted_bad_audio
   \<and> onmessage interrupted_bad_audio 3 (run one_buffer_session) = Inl RangeError
   \<and> sources (run (one_buffer_session @ [OnMessage interrupted_bad_audio 3])) = {0}
   \<and> nextStartTime (run (one_buffer_session @ [OnMessage interrupted_bad_audio 3])) = 1 / 24000"
proof -
  have "onmessage interrupted_bad_audio 3 (run one_buffer_session) = Inl RangeError"
    by (simp add: onmessage_def interrupted_bad_audio_def inline_data_audio_message
        decode_payload_one_byte)
  then show ?thesis
    by (simp add: run_snoc run_one_buffer_session interrupted_bad_audio_def
        is_interrupted_audio_message)
qed

section \<open>Teardown and the session state\<close>

text \<open>
  Claim C5, at a session that has scheduled one buffer and is then closed by the
  remote side: \<^verbatim>\<open>stopAnchor\<close> stops the node, ends the track and empties the set,
  but the cursor keeps its value, where the branch on \<^verbatim>\<open>interrupted\<close> sets it to 0.
  No call of \<^verbatim>\<open>stopAnchor\<close> changes the cursor.
\<close>

theorem teardown_keeps_cursor:
  "run (one_buffer_session @ [OnClose])
   = \<lparr>isActive = False, isConnecting = False, audioContext = Some browser,
      nextStartTime = 1 / 24000, sources = {},
      nodes = [\<lparr>node_buffer = silence 1, startedAt = 0, stopped = True\<rparr>],
      stream = Some [Ended]\<rparr>
   \<and> nextStartTime (stopAnchor s) = nextStartTime s
   \<and> nextStartTime (interrupt s) = 0"
  by (simp add: run_snoc run_one_buffer_session stopAnchor_def stop_sources_def interrupt_def
      Let_def)

text \<open>
  Claim C6, at a session whose connection fails before it opens: \<^verbatim>\<open>onerror\<close> and
  then \<^verbatim>\<open>onclose\<close> call \<^verbatim>\<open>stopAnchor\<close> twice in succession without an error,
  and the session is still connecting, \<^verbatim>\<open>stopAnchor\<close> never writing \<open>isConnecting\<close>.
\<close>

theorem teardown_twice_stays_connecting:
  "run [Click browser (Some [Live]), OnError, OnClose]
     = stopAnchor (stopAnchor (startAnchor browser (Some [Live]) mounted))
   \<and> session_state (run [Click browser (Some [Live])]) = CONNECTING
   \<and> session_state (run [Click browser (Some [Live]), OnError, OnClose]) = CONNECTING"
  by (simp add: run_def mounted_def startAnchor_def stopAnchor_def stop_sources_def
      session_state_def Let_def)

text \<open>
  Claim C9, at a remote error or close that arrives before \<^verbatim>\<open>onopen\<close>: the session
  stays connecting, and the button, disabled while connecting, cannot start another.
\<close>

theorem error_while_connecting_not_idle:
  "session_state (run [Click browser (Some [Live])]) = CONNECTING
   \<and> session_state (run [Click browser (Some [Live]), OnError]) = CONNECTING
   \<and> session_state (run [Click browser (Some [Live]), OnClose]) = CONNECTING
   \<and> session_state (run [Click browser (Some [Live]), OnError, Click browser (Some [Live])])
       = CONNECTING"
  by (simp add: run_def mounted_def startAnchor_def stopAnchor_def stop_sources_def
      session_state_def Let_def)

text \<open>The other transitions of the claim do reach \<open>IDLE\<close>: a denied permission,
  without passing through \<open>ACTIVE\<close>, and a stop, close or error of an active session.\<close>

lemma transitions_to_idle:
  "session_state (run [Click browser None]) = IDLE
   \<and> session_state (run [Click browser (Some [Live]), OnOpen]) = ACTIVE
   \<and> session_state (run [Click browser (Some [Live]), OnOpen, Click browser None]) = IDLE
   \<and> session_state (run [Click browser (Some [Live]), OnOpen, OnClose]) = IDLE
   \<and> session_state (run [Click browser (Some [Live]), OnOpen, OnError]) = IDLE"
  by (simp add: run_def mounted_def startAnchor_def stopAnchor_def stop_sources_def
      onopen_def session_state_def Let_def)

text \<open>
  Property X3: what \<^verbatim>\<open>stopAnchor\<close> does release. The component is no longer active,
  the set of sources is empty, every node that was registered is stopped, and every
  track of the stream is ended.
\<close>

theorem teardown_releases:
  "isActive (stopAnchor s) = False
   \<and> sources (stopAnchor s) = {}
   \<and> length (nodes (stopAnchor s)) = length (nodes s)
   \<and> (\<forall>i<length (nodes s). i \<in> sources s \<longrightarrow> stopped (nodes (stopAnchor s) ! i))
   \<and> stream (stopAnchor s) = map_option (map (\<lambda>t. Ended)) (stream s)"
  by (simp add: stopAnchor_def stop_sources_def Let_def)

theorem teardown_releases_witness:
  "0 < length (nodes (run one_buffer_session)) \<and> 0 \<in> sources (run one_buffer_session)
   \<and> stopped (nodes (stopAnchor (run one_buffer_session)) ! 0)
   \<and> stream (stopAnchor (run one_buffer_session)) = Some [Ended]"
  using teardown_releases [of "run one_buffer_session"]
  by (simp add: run_one_buffer_session)

text \<open>
  Property X4: \<^verbatim>\<open>stopAnchor\<close> is idempotent: a second call in succession changes
  nothing.
\<close>

theorem stopAnchor_idempotent: "stopAnchor (stopAnchor s) = stopAnchor s"
proof -
  have "map (\<lambda>i. map (\<lambda>i. if i \<in> sources s then (nodes s ! i)\<lparr>stopped := True\<rparr> else nodes s ! i)
                    [0 ..< length (nodes s)] ! i) [0 ..< length (nodes s)]
        = map (\<lambda>i. if i \<in> sources s then (nodes s ! i)\<lparr>stopped := True\<rparr> else nodes s ! i)
            [0 ..< length (nodes s)]"
    by (rule nth_equalityI) simp_all
  then show ?thesis
    by (cases "stream s") (simp_all add: stopAnchor_def stop_sources_def Let_def comp_def)
qed

text \<open>
  Property X5: the session state after each callback. \<^verbatim>\<open>stopAnchor\<close> leaves the
  session idle unless it was connecting; a denied permission leaves a freshly mounted
  component idle, a granted one connecting; \<^verbatim>\<open>onopen\<close> makes the session active.
\<close>

theorem teardown_session_state:
  "session_state (stopAnchor s) = (if isConnecting s then CONNECTING else IDLE)
   \<and> session_state (startAnchor fresh None mounted) = IDLE
   \<and> session_state (startAnchor fresh (Some media) mounted) = CONNECTING
   \<and> session_state (onopen s) = ACTIVE"
  by (simp add: session_state_def stopAnchor_def stop_sources_def startAnchor_def onopen_def
      mounted_def Let_def)

end
